theory Spec2Isabelle
  imports Complex_Main
begin

section \<open>Strings\<close>

text \<open>
  Python strings are modelled as \<^typ>\<open>string\<close>, read as the UTF-8 bytes of the text.
  The model of \<open>str.upper\<close>, \<open>str.lower\<close> and \<open>str.strip\<close> is exact on ASCII text:
  case mapping acts on the letters a-z and A-Z, and the characters stripped are
  the ASCII characters for which \<open>str.isspace\<close> holds (tab, line feed, vertical tab,
  form feed, carriage return, the separators 0x1C-0x1F and the space).
  Bytes above 0x7F are left as they are.
\<close>

definition upper_char :: "char \<Rightarrow> char" where
  "upper_char c =
     (let n = of_char c :: nat in if 97 \<le> n \<and> n \<le> 122 then char_of (n - 32) else c)"

definition lower_char :: "char \<Rightarrow> char" where
  "lower_char c =
     (let n = of_char c :: nat in if 65 \<le> n \<and> n \<le> 90 then char_of (n + 32) else c)"

definition upper :: "string \<Rightarrow> string" where
  "upper s = map upper_char s"

definition lower :: "string \<Rightarrow> string" where
  "lower s = map lower_char s"

definition isspace :: "char \<Rightarrow> bool" where
  "isspace c =
     (let n = of_char c :: nat in (9 \<le> n \<and> n \<le> 13) \<or> (28 \<le> n \<and> n \<le> 32))"

definition strip :: "string \<Rightarrow> string" where
  "strip s = rev (dropWhile isspace (rev (dropWhile isspace s)))"

section \<open>Cells, digests and errors\<close>

text \<open>
  A cell of a DataFrame (or a value handed to the identity functions) is a Python
  string, a float, \<open>None\<close>, the float \<open>nan\<close> or \<open>pandas.NA\<close>.
\<close>

datatype cell = Str string | Num real | PyNone | NaN | PdNA

datatype py_error = KeyError string | AttributeError | TypeError | RuntimeError string

text \<open>\<open>Series.isna\<close>: \<open>None\<close>, \<open>nan\<close> and \<open>pandas.NA\<close> are the null values.\<close>

fun isna :: "cell \<Rightarrow> bool" where
  "isna PyNone = True"
| "isna NaN = True"
| "isna PdNA = True"
| "isna _ = False"

text \<open>
  The expression \<open>(x or "")\<close> followed by a string method. \<open>None\<close>, the empty string
  and \<open>0.0\<close> are falsy and give the empty string; \<open>nan\<close> and any other float are
  truthy, so the string method is looked up on a float and raises AttributeError;
  the truth value of \<open>pandas.NA\<close> raises TypeError.
\<close>

fun or_empty :: "cell \<Rightarrow> py_error + string" where
  "or_empty (Str s) = Inr s"
| "or_empty PyNone = Inr []"
| "or_empty (Num x) = (if x = 0 then Inr [] else Inl AttributeError)"
| "or_empty NaN = Inl AttributeError"
| "or_empty PdNA = Inl TypeError"

text \<open>
  \<open>hashlib.sha256\<close> is a library function: the digest of a byte string, read as
  a natural number, is a parameter \<open>H\<close> of the model. \<open>hexdigest\<close> renders the
  256 bits of the digest as 64 lower-case hexadecimal digits, most significant first.
\<close>

type_synonym digest = "string \<Rightarrow> nat"

definition hex_char :: "nat \<Rightarrow> char" where
  "hex_char n = ''0123456789abcdef'' ! n"

fun hex_digits :: "nat \<Rightarrow> nat \<Rightarrow> string" where
  "hex_digits 0 n = []"
| "hex_digits (Suc k) n = hex_digits k (n div 16) @ [hex_char (n mod 16)]"

definition hexdigest :: "nat \<Rightarrow> string" where
  "hexdigest n = hex_digits 64 n"

section \<open>Identity assignment\<close>

text \<open>\<open>make_news_id\<close>: the ticker is upper-cased (and not stripped), the URL and the
  timestamp are stripped.\<close>

definition make_news_id :: "digest \<Rightarrow> cell \<Rightarrow> cell \<Rightarrow> cell \<Rightarrow> py_error + string" where
  "make_news_id H ticker url published_at =
     (case or_empty ticker of Inl e \<Rightarrow> Inl e | Inr t \<Rightarrow>
      case or_empty url of Inl e \<Rightarrow> Inl e | Inr u \<Rightarrow>
      case or_empty published_at of Inl e \<Rightarrow> Inl e | Inr p \<Rightarrow>
        Inr (hexdigest (H (upper t @ ''|'' @ strip u @ ''|'' @ strip p))))"

definition make_article_key :: "digest \<Rightarrow> cell \<Rightarrow> cell \<Rightarrow> cell \<Rightarrow> py_error + string" where
  "make_article_key H ticker title published_at =
     (case or_empty ticker of Inl e \<Rightarrow> Inl e | Inr t \<Rightarrow>
      case or_empty title of Inl e \<Rightarrow> Inl e | Inr ti \<Rightarrow>
      case or_empty published_at of Inl e \<Rightarrow> Inl e | Inr p \<Rightarrow>
        Inr (hexdigest (H (strip (upper t) @ ''|'' @ lower (strip ti) @ ''|'' @ strip p))))"

text \<open>An argument of type \<open>str | None\<close>.\<close>

definition opt_cell :: "string option \<Rightarrow> cell" where
  "opt_cell x = (case x of None \<Rightarrow> PyNone | Some s \<Rightarrow> Str s)"


section \<open>Frames\<close>

text \<open>
  A DataFrame is its list of column names and its rows, in order. A row gives a cell for
  every column name; only the cells of the frame's own columns are part of the frame.
\<close>

type_synonym row = "string \<Rightarrow> cell"

record frame =
  columns :: "string list"
  rows :: "row list"

text \<open>A row written as the list of its cells; every other cell is \<open>nan\<close>.\<close>

definition row_of :: "(string \<times> cell) list \<Rightarrow> row" where
  "row_of kvs = (\<lambda>c. case map_of kvs c of Some v \<Rightarrow> v | None \<Rightarrow> NaN)"

text \<open>\<open>df.empty\<close>: one of the two axes has length 0.\<close>

definition empty_df :: "frame \<Rightarrow> bool" where
  "empty_df df = (rows df = [] \<or> columns df = [])"

text \<open>\<open>df[c]\<close> raises KeyError for a column the frame does not have.\<close>

definition getitem :: "frame \<Rightarrow> string \<Rightarrow> py_error + cell list" where
  "getitem df c =
     (if c \<in> set (columns df) then Inr (map (\<lambda>r. r c) (rows df)) else Inl (KeyError c))"

text \<open>\<open>df[c] = values\<close>, one value per row: the column is added when it is new.\<close>

definition setitem :: "frame \<Rightarrow> string \<Rightarrow> cell list \<Rightarrow> frame" where
  "setitem df c vs =
     \<lparr>columns = (if c \<in> set (columns df) then columns df else columns df @ [c]),
      rows = map (\<lambda>(r, v). r(c := v)) (zip (rows df) vs)\<rparr>"

text \<open>
  The row handed to the function of \<open>df.apply(..., axis=1)\<close> is a Series indexed by the
  frame's columns; \<open>r.get(c, default)\<close> gives the default for any other name.
\<close>

type_synonym series = "string \<rightharpoonup> cell"

definition series_of :: "string list \<Rightarrow> row \<Rightarrow> series" where
  "series_of cols r = (\<lambda>c. if c \<in> set cols then Some (r c) else None)"

definition series_get :: "series \<Rightarrow> string \<Rightarrow> cell \<Rightarrow> cell" where
  "series_get s c d = (case s c of None \<Rightarrow> d | Some v \<Rightarrow> v)"

text \<open>\<open>df.apply(f, axis=1)\<close>: the rows in order, stopping at the first exception.\<close>

fun apply_rows :: "('a \<Rightarrow> py_error + 'b) \<Rightarrow> 'a list \<Rightarrow> py_error + 'b list" where
  "apply_rows f [] = Inr []"
| "apply_rows f (x # xs) =
     (case f x of Inl e \<Rightarrow> Inl e
      | Inr y \<Rightarrow> (case apply_rows f xs of Inl e \<Rightarrow> Inl e | Inr ys \<Rightarrow> Inr (y # ys)))"

text \<open>The function \<open>ensure_news_id\<close> applies to each row, and that of \<open>ensure_article_key\<close>.\<close>

definition row_news_id :: "digest \<Rightarrow> string list \<Rightarrow> row \<Rightarrow> py_error + string" where
  "row_news_id H cols r =
     (let s = series_of cols r
      in make_news_id H (series_get s ''Ticker'' (Str []))
           (series_get s ''url'' (Str []))
           (series_get s ''publishedAt'' (Str [])))"

definition row_article_key :: "digest \<Rightarrow> string list \<Rightarrow> row \<Rightarrow> py_error + string" where
  "row_article_key H cols r =
     (let s = series_of cols r
      in make_article_key H (series_get s ''Ticker'' (Str []))
           (series_get s ''title'' (Str []))
           (series_get s ''publishedAt'' (Str [])))"

definition ensure_news_id :: "digest \<Rightarrow> frame \<Rightarrow> py_error + frame" where
  "ensure_news_id H df =
     (if empty_df df then Inr df
      else if ''NewsID'' \<notin> set (columns df) \<or> (\<exists>r \<in> set (rows df). isna (r ''NewsID''))
      then (case apply_rows (row_news_id H (columns df)) (rows df) of
              Inl e \<Rightarrow> Inl e
            | Inr ids \<Rightarrow> Inr (setitem df ''NewsID'' (map Str ids)))
      else Inr df)"

definition ensure_article_key :: "digest \<Rightarrow> frame \<Rightarrow> py_error + frame" where
  "ensure_article_key H df =
     (if empty_df df then Inr df
      else if ''ArticleKey'' \<notin> set (columns df) \<or> (\<exists>r \<in> set (rows df). isna (r ''ArticleKey''))
      then (case apply_rows (row_article_key H (columns df)) (rows df) of
              Inl e \<Rightarrow> Inl e
            | Inr ks \<Rightarrow> Inr (setitem df ''ArticleKey'' (map Str ks)))
      else Inr df)"

subsection \<open>Dropping duplicates and concatenating\<close>

text \<open>
  \<open>drop_duplicates(subset=[c])\<close> keeps the first row of each value of column \<open>c\<close>; the
  null values count as one value. An empty frame is returned as it is, before the
  column is looked up; otherwise a missing column raises KeyError.
\<close>

definition dup_key :: "cell \<Rightarrow> cell option" where
  "dup_key v = (if isna v then None else Some v)"

fun keep_first :: "'k list \<Rightarrow> ('a \<Rightarrow> 'k) \<Rightarrow> 'a list \<Rightarrow> 'a list" where
  "keep_first seen k [] = []"
| "keep_first seen k (x # xs) =
     (if k x \<in> set seen then keep_first seen k xs else x # keep_first (k x # seen) k xs)"

definition drop_duplicates :: "frame \<Rightarrow> string \<Rightarrow> py_error + frame" where
  "drop_duplicates df c =
     (if empty_df df then Inr df
      else if c \<notin> set (columns df) then Inl (KeyError c)
      else Inr (df\<lparr>rows := keep_first [] (\<lambda>r. dup_key (r c)) (rows df)\<rparr>))"

text \<open>
  \<open>pd.concat(dfs, ignore_index=True)\<close>: the columns are the union of the frames'
  columns in order of first appearance, the rows follow one another, and a cell of a
  column its frame did not have is \<open>nan\<close>.
\<close>

definition reindex :: "string list \<Rightarrow> row \<Rightarrow> row" where
  "reindex cols r = (\<lambda>c. if c \<in> set cols then r c else NaN)"

definition concat_frames :: "frame list \<Rightarrow> frame" where
  "concat_frames dfs =
     \<lparr>columns = rev (remdups (rev (concat (map columns dfs)))),
      rows = concat (map (\<lambda>d. map (reindex (columns d)) (rows d)) dfs)\<rparr>"

section \<open>Fetching the news of one ticker\<close>

text \<open>
  A raw article of the news API, with the fields \<open>fetch_news_for_ticker\<close> reads;
  \<open>source\<close> is the name found under \<open>source.name\<close>. A field that is missing or null
  is \<open>None\<close>. The list of articles is what \<open>fetch_last_n_days_for_query\<close> returned.
\<close>

record article =
  source :: "string option"
  author :: "string option"
  title :: "string option"
  description :: "string option"
  url :: "string option"
  publishedAt :: "string option"
  content :: "string option"

definition article_row :: "string \<Rightarrow> article \<Rightarrow> row" where
  "article_row ticker a =
     (\<lambda>_. NaN)
       (''Ticker'' := Str (upper ticker),
        ''source'' := opt_cell (source a),
        ''author'' := opt_cell (author a),
        ''title'' := opt_cell (title a),
        ''description'' := opt_cell (description a),
        ''url'' := opt_cell (url a),
        ''publishedAt'' := opt_cell (publishedAt a),
        ''content_snippet'' := opt_cell (content a))"

text \<open>\<open>pd.DataFrame(rows)\<close> of a list of dicts: no rows give a frame without columns.\<close>

definition article_frame :: "string \<Rightarrow> article list \<Rightarrow> frame" where
  "article_frame ticker articles =
     (if articles = [] then \<lparr>columns = [], rows = []\<rparr>
      else \<lparr>columns = [''Ticker'', ''source'', ''author'', ''title'', ''description'',
                        ''url'', ''publishedAt'', ''content_snippet''],
            rows = map (article_row ticker) articles\<rparr>)"

definition fetch_news_for_ticker :: "digest \<Rightarrow> string \<Rightarrow> article list \<Rightarrow> py_error + frame" where
  "fetch_news_for_ticker H ticker articles =
     (let df = article_frame ticker articles
      in if \<not> empty_df df
         then (case drop_duplicates df ''url'' of Inl e \<Rightarrow> Inl e
               | Inr df' \<Rightarrow> ensure_news_id H df')
         else Inr df)"

text \<open>The NewsID a fetched article is given: that of its row.\<close>

definition fetched_id :: "digest \<Rightarrow> string \<Rightarrow> article \<Rightarrow> string" where
  "fetched_id H t a = hexdigest (H (upper (upper t) @ ''|'' @ strip (case url a of None \<Rightarrow> [] | Some s \<Rightarrow> s)
         @ ''|'' @ strip (case publishedAt a of None \<Rightarrow> [] | Some s \<Rightarrow> s)))"

section \<open>Sentiment\<close>

text \<open>
  The VADER analyzer is a library: its compound score of a text is the parameter
  \<open>sia\<close>. Each function returns, beside its result, the texts the scorer was called on.
\<close>

type_synonym scorer = "string \<Rightarrow> real"

definition sentiment_for_text ::
  "scorer \<Rightarrow> string \<Rightarrow> (real option \<times> string option) \<times> string list" where
  "sentiment_for_text sia text =
     (if text = [] \<or> strip text = [] then ((None, None), [])
      else let compound = sia text;
               label = (if compound \<ge> 0.05 then ''positive''
                        else if compound \<le> - 0.05 then ''negative''
                        else ''neutral'')
           in ((Some compound, Some label), [text]))"

definition text_columns :: "string list" where
  "text_columns = [''title'', ''description'', ''content_snippet'']"

text \<open>The parts of a row: the stripped text of each text column that holds a string
  with something other than white space in it.\<close>

fun parts_of :: "row \<Rightarrow> string list \<Rightarrow> string list" where
  "parts_of r [] = []"
| "parts_of r (c # cs) =
     (case r c of
        Str v \<Rightarrow> (if strip v \<noteq> [] then strip v # parts_of r cs else parts_of r cs)
      | _ \<Rightarrow> parts_of r cs)"

fun join_space :: "string list \<Rightarrow> string" where
  "join_space [] = []"
| "join_space [p] = p"
| "join_space (p # ps) = p @ '' '' @ join_space ps"

definition row_text :: "row \<Rightarrow> string" where
  "row_text r = join_space (parts_of r text_columns)"

definition score_cell :: "real option \<Rightarrow> cell" where
  "score_cell x = (case x of None \<Rightarrow> NaN | Some v \<Rightarrow> Num v)"

definition label_cell :: "string option \<Rightarrow> cell" where
  "label_cell x = (case x of None \<Rightarrow> PyNone | Some l \<Rightarrow> Str l)"

text \<open>
  \<open>df.loc[mask, c] = values\<close>: the mask is a list of booleans, one per row, and the
  values go, in order, to the rows the mask selects.
\<close>

fun assign_masked :: "bool list \<Rightarrow> string \<Rightarrow> row list \<Rightarrow> cell list \<Rightarrow> row list" where
  "assign_masked (True # bs) c (r # rs) (v # vs) = r(c := v) # assign_masked bs c rs vs"
| "assign_masked (False # bs) c (r # rs) vs = r # assign_masked bs c rs vs"
| "assign_masked _ c rs _ = rs"

text \<open>\<open>df.loc[mask]\<close>: the rows the mask selects.\<close>

definition select_rows :: "bool list \<Rightarrow> row list \<Rightarrow> row list" where
  "select_rows bs rs = map snd (filter fst (zip bs rs))"

definition ensure_sentiment :: "scorer \<Rightarrow> frame \<Rightarrow> py_error + (frame \<times> string list)" where
  "ensure_sentiment sia df =
     (if empty_df df then Inr (df, [])
      else
        \<comment> \<open>\<open>needs\<close> is the source's \<open>mask\<close>\<close>
        let df1 = (if ''sentiment_score'' \<notin> set (columns df)
                   then setitem df ''sentiment_score'' (map (\<lambda>_. NaN) (rows df)) else df);
            df2 = (if ''sentiment_label'' \<notin> set (columns df1)
                   then setitem df1 ''sentiment_label'' (map (\<lambda>_. PdNA) (rows df1)) else df1);
            needs = map (\<lambda>r. isna (r ''sentiment_score'')) (rows df2)
        in if \<not> (\<exists>b \<in> set needs. b) then Inr (df2, [])
           else (case filter (\<lambda>c. c \<notin> set (columns df2)) text_columns of
                   c # _ \<Rightarrow> Inl (KeyError c)
                 | [] \<Rightarrow>
                     let results = map (\<lambda>r. sentiment_for_text sia (row_text r))
                                       (select_rows needs (rows df2));
                         scores = map (\<lambda>res. score_cell (fst (fst res))) results;
                         labels = map (\<lambda>res. label_cell (snd (fst res))) results;
                         rs1 = assign_masked needs ''sentiment_score'' (rows df2) scores;
                         rs2 = assign_masked needs ''sentiment_label'' rs1 labels
                     in Inr (df2\<lparr>rows := rs2\<rparr>, concat (map snd results))))"

section \<open>The run\<close>

text \<open>
  What the fetch of one ticker does: it returns the articles, or it raises. A
  RuntimeError whose message contains \<open>NewsAPI error 429\<close> or \<open>rateLimited\<close> is the
  rate limit; every other exception ends the run.
\<close>

datatype fetch_outcome = Fetched "article list" | Raised py_error

fun contains :: "string \<Rightarrow> string \<Rightarrow> bool" where
  "contains sub [] = (sub = [])"
| "contains sub (c # cs) = (take (length sub) (c # cs) = sub \<or> contains sub cs)"

fun is_rate_limit :: "py_error \<Rightarrow> bool" where
  "is_rate_limit (RuntimeError msg) =
     (contains ''NewsAPI error 429'' msg \<or> contains ''rateLimited'' msg)"
| "is_rate_limit _ = False"

fun is_runtime_error :: "py_error \<Rightarrow> bool" where
  "is_runtime_error (RuntimeError _) = True"
| "is_runtime_error _ = False"

text \<open>The loop over the tickers: \<open>hit\<close> is \<open>hit_rate_limit\<close>, \<open>all_dfs\<close> the frames so far.\<close>

fun fetch_loop ::
  "digest \<Rightarrow> (string \<Rightarrow> fetch_outcome) \<Rightarrow> string list \<Rightarrow> bool \<Rightarrow> frame list \<Rightarrow> py_error + frame list"
where
  "fetch_loop H fetch [] hit all_dfs = Inr all_dfs"
| "fetch_loop H fetch (ticker # ts) hit all_dfs =
     (if hit then fetch_loop H fetch ts hit all_dfs
      else (case fetch ticker of
              Raised e \<Rightarrow>
                (if is_runtime_error e
                 then (if is_rate_limit e then fetch_loop H fetch ts True all_dfs else Inl e)
                 else Inl e)
            | Fetched articles \<Rightarrow>
                (case fetch_news_for_ticker H ticker articles of
                   Inl e \<Rightarrow> Inl e
                 | Inr df_ticker \<Rightarrow> fetch_loop H fetch ts hit (all_dfs @ [df_ticker]))))"

text \<open>The notices of the run that tell which branch it took.\<close>

datatype notice = NothingToDo | UsingExistingOnly | FoundExisting nat nat nat | CreatingFromScratch

text \<open>Reading the archive: \<open>ensure_news_id\<close>, then \<open>ensure_article_key\<close>.\<close>

definition load_existing :: "digest \<Rightarrow> frame \<Rightarrow> py_error + frame" where
  "load_existing H db =
     (case ensure_news_id H db of Inl e \<Rightarrow> Inl e | Inr d \<Rightarrow> ensure_article_key H d)"

text \<open>The rows of the batch whose NewsID the archive does not hold, appended to the
  archive (lines 334-347 of \<open>main\<close>).\<close>

definition merge_new :: "frame \<Rightarrow> frame \<Rightarrow> py_error + (notice \<times> frame)" where
  "merge_new existing_df new_df =
     (case getitem existing_df ''NewsID'' of Inl e \<Rightarrow> Inl e | Inr existing_ids \<Rightarrow>
      case getitem new_df ''NewsID'' of Inl e \<Rightarrow> Inl e | Inr new_ids \<Rightarrow>
        let before = length (rows new_df);
            new_only_df = new_df\<lparr>rows := filter (\<lambda>r. r ''NewsID'' \<notin> set existing_ids) (rows new_df)\<rparr>;
            after = length (rows new_only_df);
            n = FoundExisting (length (rows existing_df)) before after
        in if after = 0 then Inr (n, existing_df)
           else Inr (n, concat_frames [existing_df, new_only_df]))"

text \<open>The new data merged with the archive, if there is one (lines 324-350).\<close>

definition merge_batch :: "digest \<Rightarrow> frame option \<Rightarrow> frame \<Rightarrow> py_error + (notice \<times> frame)" where
  "merge_batch H db new_df0 =
     (case load_existing H new_df0 of Inl e \<Rightarrow> Inl e | Inr new_df \<Rightarrow>
      case db of
        Some d \<Rightarrow> (case load_existing H d of Inl e \<Rightarrow> Inl e
                   | Inr existing_df \<Rightarrow> merge_new existing_df new_df)
      | None \<Rightarrow> Inr (CreatingFromScratch, new_df))"

text \<open>The final pass (lines 353-355).\<close>

definition dedup_pass :: "digest \<Rightarrow> frame \<Rightarrow> py_error + frame" where
  "dedup_pass H final_df =
     (case ensure_article_key H final_df of Inl e \<Rightarrow> Inl e | Inr d0 \<Rightarrow>
      case drop_duplicates d0 ''NewsID'' of Inl e \<Rightarrow> Inl e | Inr d1 \<Rightarrow>
        drop_duplicates d1 ''ArticleKey'')"

text \<open>Merging a batch into the archive: lines 324-355.\<close>

definition merge :: "digest \<Rightarrow> frame option \<Rightarrow> frame \<Rightarrow> py_error + frame" where
  "merge H db new_df =
     (case merge_batch H db new_df of Inl e \<Rightarrow> Inl e
      | Inr (n, final_df) \<Rightarrow> dedup_pass H final_df)"

text \<open>
  The result of a run that did not raise: its notices, the frame written to
  \<open>news_db.csv\<close> (\<open>None\<close> when nothing is written) and the texts given to the scorer.
  \<open>db\<close> is the frame \<open>pd.read_csv\<close> reads from \<open>news_db.csv\<close>, \<open>None\<close> when the file
  does not exist.
\<close>

record run_result =
  notices :: "notice list"
  saved :: "frame option"
  scored :: "string list"

definition finish :: "digest \<Rightarrow> scorer \<Rightarrow> notice \<Rightarrow> frame \<Rightarrow> py_error + run_result" where
  "finish H sia n final_df =
     (case dedup_pass H final_df of Inl e \<Rightarrow> Inl e | Inr d \<Rightarrow>
      case ensure_sentiment sia d of Inl e \<Rightarrow> Inl e
      | Inr (d', calls) \<Rightarrow> Inr \<lparr>notices = [n], saved = Some d', scored = calls\<rparr>)"

definition main ::
  "digest \<Rightarrow> scorer \<Rightarrow> (string \<Rightarrow> fetch_outcome) \<Rightarrow> string list \<Rightarrow> frame option \<Rightarrow> py_error + run_result"
where
  "main H sia fetch tickers db =
     (case fetch_loop H fetch tickers False [] of Inl e \<Rightarrow> Inl e | Inr all_dfs \<Rightarrow>
        if all_dfs = []
        then (case db of
                None \<Rightarrow> Inr \<lparr>notices = [NothingToDo], saved = None, scored = []\<rparr>
              | Some d \<Rightarrow> (case load_existing H d of Inl e \<Rightarrow> Inl e
                           | Inr final_df \<Rightarrow> finish H sia UsingExistingOnly final_df))
        else (case merge_batch H db (concat_frames all_dfs) of Inl e \<Rightarrow> Inl e
              | Inr (n, final_df) \<Rightarrow> finish H sia n final_df))"

section \<open>Tables with identities\<close>

text \<open>
  \<open>has_keys\<close>: the table has the columns NewsID and ArticleKey and no row's identity is
  null. \<open>unique_keys\<close>: moreover no two rows share a NewsID and no two rows share an
  ArticleKey, which is the invariant of the archive.
\<close>

definition has_keys :: "frame \<Rightarrow> bool" where
  "has_keys df =
     (''NewsID'' \<in> set (columns df) \<and> ''ArticleKey'' \<in> set (columns df) \<and>
      list_all (\<lambda>r. \<not> isna (r ''NewsID'') \<and> \<not> isna (r ''ArticleKey'')) (rows df))"

definition unique_keys :: "frame \<Rightarrow> bool" where
  "unique_keys df =
     (has_keys df \<and> distinct (map (\<lambda>r. r ''NewsID'') (rows df)) \<and>
      distinct (map (\<lambda>r. r ''ArticleKey'') (rows df)))"

section \<open>A digest for the examples\<close>

text \<open>
  The closed examples below need some digest function to run the model on. This one
  reads the text as a number in base 256 behind a leading 1, so texts shorter than
  32 bytes have different digests. The general theorems hold for every digest function.
\<close>

definition demo_digest :: digest where
  "demo_digest s = fold (\<lambda>c n. n * 256 + of_char c) s 1"

section \<open>An example: an archive of the older format\<close>

text \<open>
  An archive written before the ArticleKey column existed: two rows for the same
  article under two URLs (\<open>a\<close> and \<open>b\<close>), each with its NewsID. The batch holds the
  article of URL \<open>b\<close> again, at the same timestamp, with its title changed. The other
  two tables are what the first and the second merge of that batch return.
\<close>

definition ex_columns :: "string list" where
  "ex_columns = [''Ticker'', ''url'', ''title'', ''publishedAt'', ''NewsID'']"

definition ex_row_a :: row where
  "ex_row_a = row_of [(''Ticker'', Str ''NVDA''), (''url'', Str ''a''), (''title'', Str ''Chip news''),
                      (''publishedAt'', Str ''t1''),
                      (''NewsID'', Str (hexdigest (demo_digest ''NVDA|a|t1'')))]"

definition ex_row_b :: row where
  "ex_row_b = row_of [(''Ticker'', Str ''NVDA''), (''url'', Str ''b''), (''title'', Str ''Chip news''),
                      (''publishedAt'', Str ''t1''),
                      (''NewsID'', Str (hexdigest (demo_digest ''NVDA|b|t1'')))]"

definition ex_row_new :: row where
  "ex_row_new = row_of [(''Ticker'', Str ''NVDA''), (''url'', Str ''b''), (''title'', Str ''Chip news 2''),
                      (''publishedAt'', Str ''t1''),
                      (''NewsID'', Str (hexdigest (demo_digest ''NVDA|b|t1'')))]"

definition ex_legacy_archive :: frame where
  "ex_legacy_archive = \<lparr>columns = ex_columns, rows = [ex_row_a, ex_row_b]\<rparr>"

definition ex_batch :: frame where
  "ex_batch = \<lparr>columns = ex_columns, rows = [ex_row_new]\<rparr>"

definition ex_after_first :: frame where
  "ex_after_first =
     \<lparr>columns = ex_columns @ [''ArticleKey''],
      rows = [ex_row_a(''ArticleKey'' := Str (hexdigest (demo_digest ''NVDA|chip news|t1'')))]\<rparr>"

definition ex_after_second :: frame where
  "ex_after_second =
     \<lparr>columns = ex_columns @ [''ArticleKey''],
      rows = [reindex (ex_columns @ [''ArticleKey''])
                (ex_row_a(''ArticleKey'' := Str (hexdigest (demo_digest ''NVDA|chip news|t1'')))),
              reindex (ex_columns @ [''ArticleKey''])
                (ex_row_new(''ArticleKey'' := Str (hexdigest (demo_digest ''NVDA|chip news 2|t1''))))]\<rparr>"

section \<open>Evaluating the string functions, and facts about digests\<close>

lemma upper_sp_NVDA: "upper '' NVDA'' = '' NVDA''" by code_simp
lemma strip_a: "strip ''a'' = ''a''" by code_simp
lemma strip_t: "strip ''t'' = ''t''" by code_simp
lemma strip_sp_NVDA: "strip '' NVDA'' = ''NVDA''" by code_simp
lemma strip_b: "strip ''b'' = ''b''" by code_simp
lemma upper_NVDA: "upper ''NVDA'' = ''NVDA''" by code_simp
lemma strip_ts: "strip ''2024-01-01T00:00:00Z'' = ''2024-01-01T00:00:00Z''" by code_simp
lemma strip_NVDA: "strip ''NVDA'' = ''NVDA''" by code_simp
lemma strip_X: "strip ''X'' = ''X''" by code_simp
lemma lower_X: "lower ''X'' = ''x''" by code_simp
lemma length_hex_digits: "length (hex_digits k n) = k"
  by (induction k arbitrary: n) auto

lemma length_hexdigest: "length (hexdigest n) = 64"
  by (simp add: hexdigest_def length_hex_digits)

lemma hexdigest_neq_short: "length s \<noteq> 64 \<Longrightarrow> hexdigest n \<noteq> s"
  using length_hexdigest by blast

lemma hex_char_inj: "a < 16 \<Longrightarrow> b < 16 \<Longrightarrow> hex_char a = hex_char b \<Longrightarrow> a = b"
proof -
  assume a: "a < 16" and b: "b < 16" and e: "hex_char a = hex_char b"
  have d: "distinct ''0123456789abcdef''" by simp
  have "length ''0123456789abcdef'' = 16" by simp
  with a b e d show ?thesis unfolding hex_char_def
    by (metis nth_eq_iff_index_eq)
qed

lemma hex_digits_inj: "hex_digits k m = hex_digits k n \<Longrightarrow> m mod 16 ^ k = n mod 16 ^ k"
proof (induction k arbitrary: m n)
  case 0 then show ?case by simp
next
  case (Suc k)
  from Suc.prems have a: "hex_digits k (m div 16) = hex_digits k (n div 16)" and b: "hex_char (m mod 16) = hex_char (n mod 16)"
    by (auto simp: length_hex_digits)
  from b have b': "m mod 16 = n mod 16" by (intro hex_char_inj) auto
  from Suc.IH[OF a] have c: "(m div 16) mod 16 ^ k = (n div 16) mod 16 ^ k" .
  show ?case using b' c by (simp add: mod_mult2_eq)
qed

lemma hexdigest_neqI: "m mod 16 ^ 64 \<noteq> n mod 16 ^ 64 \<Longrightarrow> hexdigest m \<noteq> hexdigest n"
  unfolding hexdigest_def using hex_digits_inj by blast

lemma demo_ab: "hexdigest (demo_digest ''NVDA|a|t1'') \<noteq> hexdigest (demo_digest ''NVDA|b|t1'')"
  by (rule hexdigest_neqI) (simp add: demo_digest_def)


lemma apply_rows_Inr:
  "apply_rows f xs = Inr ys \<Longrightarrow> length ys = length xs \<and> (\<forall>i<length xs. f (xs ! i) = Inr (ys ! i))"
proof (induction xs arbitrary: ys)
  case Nil then show ?case by simp
next
  case (Cons x xs)
  then obtain y ys' where y: "f x = Inr y" and r: "apply_rows f xs = Inr ys'" and e: "ys = y # ys'"
    by (auto split: sum.splits)
  from Cons.IH[OF r] show ?case using y e by (auto simp: nth_Cons split: nat.splits)
qed

lemma setitem_rows:
  "length vs = length (rows df) \<Longrightarrow> i < length (rows df) \<Longrightarrow>
   rows (setitem df c vs) ! i = (rows df ! i)(c := vs ! i)"
  by (simp add: setitem_def)

lemma length_setitem: "length vs = length (rows df) \<Longrightarrow> length (rows (setitem df c vs)) = length (rows df)"
  by (simp add: setitem_def)

lemma row_of_simps [simp]: "row_of [] c = NaN" "row_of ((k, v) # kvs) c = (if c = k then v else row_of kvs c)"
  by (simp_all add: row_of_def)

lemma or_empty_opt: "or_empty (opt_cell x) = Inr (case x of None \<Rightarrow> [] | Some s \<Rightarrow> s)"
  by (cases x) (simp_all add: opt_cell_def)

lemma make_news_id_opt:
  "make_news_id H (opt_cell t) (opt_cell u) (opt_cell p) =
     Inr (hexdigest (H (upper (case t of None \<Rightarrow> [] | Some s \<Rightarrow> s) @ ''|'' @
                        strip (case u of None \<Rightarrow> [] | Some s \<Rightarrow> s) @ ''|'' @
                        strip (case p of None \<Rightarrow> [] | Some s \<Rightarrow> s))))"
  by (simp add: make_news_id_def or_empty_opt)

section \<open>Identity assignment: properties\<close>

text \<open>
  Claim C2. \<open>make_news_id\<close> hashes the upper-cased ticker, the stripped URL and the
  stripped timestamp joined by \<open>|\<close>. The ticker is upper-cased but not stripped (the
  sibling \<open>make_article_key\<close> strips it): for the ticker \<open>" NVDA"\<close>, the URL \<open>"a"\<close> and
  the timestamp \<open>"t"\<close> the text hashed is \<open>" NVDA|a|t"\<close>, while the text the claim
  describes, with the ticker trimmed, is \<open>"NVDA|a|t"\<close>.
\<close>

theorem make_news_id_ticker_not_trimmed:
  "make_news_id H (Str '' NVDA'') (Str ''a'') (Str ''t'') = Inr (hexdigest (H '' NVDA|a|t''))
   \<and> strip (upper '' NVDA'') @ ''|'' @ strip ''a'' @ ''|'' @ strip ''t'' = ''NVDA|a|t''"
  by (simp add: make_news_id_def upper_sp_NVDA strip_a strip_t strip_sp_NVDA)

text \<open>On inputs of type \<open>str | None\<close> the function never raises, and \<open>None\<close> counts as
  the empty string; the scenario of the specification holds.\<close>

lemma make_news_id_scenario:
  "make_news_id H (Str ''NVDA'') (Str ''a'') (Str ''2024-01-01T00:00:00Z'')
     = Inr (hexdigest (H ''NVDA|a|2024-01-01T00:00:00Z''))"
  by (simp add: make_news_id_def upper_NVDA strip_a strip_ts)

text \<open>
  Claim C5, as the code has it. \<open>ensure_news_id\<close> and \<open>ensure_article_key\<close> decide for
  the whole column: an empty table, or a table whose identity column is present and
  has no null, is returned as it is; otherwise the identity of every row is computed
  from the row's fields and assigned, whatever the row held.
\<close>

theorem ensure_identity_whole_column:
  "(ensure_news_id H df = Inr d \<longrightarrow>
      (if empty_df df \<or> (''NewsID'' \<in> set (columns df) \<and> (\<forall>r \<in> set (rows df). \<not> isna (r ''NewsID'')))
       then d = df
       else length (rows d) = length (rows df) \<and>
            (\<forall>i < length (rows df). \<exists>v. row_news_id H (columns df) (rows df ! i) = Inr v \<and>
                 rows d ! i = (rows df ! i)(''NewsID'' := Str v))))
   \<and> (ensure_article_key H df = Inr d' \<longrightarrow>
      (if empty_df df \<or> (''ArticleKey'' \<in> set (columns df) \<and> (\<forall>r \<in> set (rows df). \<not> isna (r ''ArticleKey'')))
       then d' = df
       else length (rows d') = length (rows df) \<and>
            (\<forall>i < length (rows df). \<exists>v. row_article_key H (columns df) (rows df ! i) = Inr v \<and>
                 rows d' ! i = (rows df ! i)(''ArticleKey'' := Str v))))"
proof (intro conjI impI)
  assume a: "ensure_news_id H df = Inr d"
  show "if empty_df df \<or> (''NewsID'' \<in> set (columns df) \<and> (\<forall>r \<in> set (rows df). \<not> isna (r ''NewsID'')))
       then d = df
       else length (rows d) = length (rows df) \<and>
            (\<forall>i < length (rows df). \<exists>v. row_news_id H (columns df) (rows df ! i) = Inr v \<and>
                 rows d ! i = (rows df ! i)(''NewsID'' := Str v))"
  proof (cases "empty_df df \<or> (''NewsID'' \<in> set (columns df) \<and> (\<forall>r \<in> set (rows df). \<not> isna (r ''NewsID'')))")
    case True
    with a show ?thesis by (auto simp: ensure_news_id_def split: if_splits)
  next
    case False
    with a obtain ids where ids: "apply_rows (row_news_id H (columns df)) (rows df) = Inr ids"
      and d: "d = setitem df ''NewsID'' (map Str ids)"
      by (auto simp: ensure_news_id_def split: sum.splits)
    from apply_rows_Inr[OF ids] have l: "length ids = length (rows df)"
      and v: "\<forall>i<length (rows df). row_news_id H (columns df) (rows df ! i) = Inr (ids ! i)" by auto
    show ?thesis using False l v d by (auto simp: setitem_rows length_setitem)
  qed
next
  assume a: "ensure_article_key H df = Inr d'"
  show "if empty_df df \<or> (''ArticleKey'' \<in> set (columns df) \<and> (\<forall>r \<in> set (rows df). \<not> isna (r ''ArticleKey'')))
       then d' = df
       else length (rows d') = length (rows df) \<and>
            (\<forall>i < length (rows df). \<exists>v. row_article_key H (columns df) (rows df ! i) = Inr v \<and>
                 rows d' ! i = (rows df ! i)(''ArticleKey'' := Str v))"
  proof (cases "empty_df df \<or> (''ArticleKey'' \<in> set (columns df) \<and> (\<forall>r \<in> set (rows df). \<not> isna (r ''ArticleKey'')))")
    case True
    with a show ?thesis by (auto simp: ensure_article_key_def split: if_splits)
  next
    case False
    with a obtain ks where ks: "apply_rows (row_article_key H (columns df)) (rows df) = Inr ks"
      and d: "d' = setitem df ''ArticleKey'' (map Str ks)"
      by (auto simp: ensure_article_key_def split: sum.splits)
    from apply_rows_Inr[OF ks] have l: "length ks = length (rows df)"
      and v: "\<forall>i<length (rows df). row_article_key H (columns df) (rows df ! i) = Inr (ks ! i)" by auto
    show ?thesis using False l v d by (auto simp: setitem_rows length_setitem)
  qed
qed

theorem ensure_identity_whole_column_witness:
  "ensure_news_id demo_digest
     \<lparr>columns = [''Ticker'', ''url'', ''title'', ''publishedAt'', ''NewsID''],
      rows = [row_of [(''Ticker'', Str ''NVDA''), (''url'', Str ''a''), (''title'', Str ''X''),
                      (''publishedAt'', Str ''t''), (''NewsID'', NaN)]]\<rparr>
   = Inr \<lparr>columns = [''Ticker'', ''url'', ''title'', ''publishedAt'', ''NewsID''],
      rows = [(row_of [(''Ticker'', Str ''NVDA''), (''url'', Str ''a''), (''title'', Str ''X''),
                      (''publishedAt'', Str ''t''), (''NewsID'', NaN)])
                (''NewsID'' := Str (hexdigest (demo_digest ''NVDA|a|t'')))]\<rparr>
   \<and> ensure_article_key demo_digest
     \<lparr>columns = [''Ticker'', ''url'', ''title'', ''publishedAt'', ''NewsID''],
      rows = [row_of [(''Ticker'', Str ''NVDA''), (''url'', Str ''a''), (''title'', Str ''X''),
                      (''publishedAt'', Str ''t''), (''NewsID'', NaN)]]\<rparr>
   = Inr \<lparr>columns = [''Ticker'', ''url'', ''title'', ''publishedAt'', ''NewsID'', ''ArticleKey''],
      rows = [(row_of [(''Ticker'', Str ''NVDA''), (''url'', Str ''a''), (''title'', Str ''X''),
                      (''publishedAt'', Str ''t''), (''NewsID'', NaN)])
                (''ArticleKey'' := Str (hexdigest (demo_digest ''NVDA|x|t'')))]\<rparr>
   \<and> row_news_id demo_digest [''Ticker'', ''url'', ''title'', ''publishedAt'', ''NewsID'']
        (row_of [(''Ticker'', Str ''NVDA''), (''url'', Str ''a''), (''title'', Str ''X''),
                      (''publishedAt'', Str ''t''), (''NewsID'', NaN)])
       = Inr (hexdigest (demo_digest ''NVDA|a|t''))
   \<and> row_article_key demo_digest [''Ticker'', ''url'', ''title'', ''publishedAt'', ''NewsID'']
        (row_of [(''Ticker'', Str ''NVDA''), (''url'', Str ''a''), (''title'', Str ''X''),
                      (''publishedAt'', Str ''t''), (''NewsID'', NaN)])
       = Inr (hexdigest (demo_digest ''NVDA|x|t''))"
proof -
  let ?r = "row_of [(''Ticker'', Str ''NVDA''), (''url'', Str ''a''), (''title'', Str ''X''),
                      (''publishedAt'', Str ''t''), (''NewsID'', NaN)]"
  let ?cs = "[''Ticker'', ''url'', ''title'', ''publishedAt'', ''NewsID'']"
  let ?F = "\<lparr>columns = ?cs, rows = [?r]\<rparr>"
  let ?G = "\<lparr>columns = ?cs, rows = [?r(''NewsID'' := Str (hexdigest (demo_digest ''NVDA|a|t'')))]\<rparr>"
  let ?K = "\<lparr>columns = ?cs @ [''ArticleKey''],
             rows = [?r(''ArticleKey'' := Str (hexdigest (demo_digest ''NVDA|x|t'')))]\<rparr>"
  have h1: "ensure_news_id demo_digest ?F = Inr ?G"
    by (simp add: ensure_news_id_def empty_df_def row_news_id_def series_of_def series_get_def
          make_news_id_def setitem_def upper_NVDA strip_a strip_t)
  have h2: "ensure_article_key demo_digest ?F = Inr ?K"
    by (simp add: ensure_article_key_def empty_df_def row_article_key_def series_of_def series_get_def
          make_article_key_def setitem_def upper_NVDA strip_NVDA strip_X lower_X strip_t)
  from ensure_identity_whole_column[of demo_digest ?F ?G ?K] h1 h2
  have "(\<exists>v. row_news_id demo_digest ?cs ?r = Inr v \<and>
           ?r(''NewsID'' := Str (hexdigest (demo_digest ''NVDA|a|t''))) = ?r(''NewsID'' := Str v))
      \<and> (\<exists>v. row_article_key demo_digest ?cs ?r = Inr v \<and>
           ?r(''ArticleKey'' := Str (hexdigest (demo_digest ''NVDA|x|t''))) = ?r(''ArticleKey'' := Str v))"
    by (simp add: empty_df_def)
  then have "row_news_id demo_digest ?cs ?r = Inr (hexdigest (demo_digest ''NVDA|a|t''))
      \<and> row_article_key demo_digest ?cs ?r = Inr (hexdigest (demo_digest ''NVDA|x|t''))"
    by (metis cell.inject(1) fun_upd_eqD)
  with h1 h2 show ?thesis by simp
qed

text \<open>
  Claim C5 as stated fails: in a table of two rows where the first holds the NewsID
  \<open>legacy-1\<close> and the second holds none, the first row's NewsID is overwritten by
  the digest of its fields (64 hexadecimal digits, whatever the digest function).
\<close>

theorem ensure_news_id_overwrites:
  "ensure_news_id demo_digest
     \<lparr>columns = [''Ticker'', ''url'', ''publishedAt'', ''NewsID''],
      rows = [row_of [(''Ticker'', Str ''NVDA''), (''url'', Str ''a''), (''publishedAt'', Str ''t''),
                      (''NewsID'', Str ''legacy-1'')],
              row_of [(''Ticker'', Str ''NVDA''), (''url'', Str ''b''), (''publishedAt'', Str ''t''),
                      (''NewsID'', NaN)]]\<rparr>
   = Inr \<lparr>columns = [''Ticker'', ''url'', ''publishedAt'', ''NewsID''],
      rows = [(row_of [(''Ticker'', Str ''NVDA''), (''url'', Str ''a''), (''publishedAt'', Str ''t''),
                      (''NewsID'', Str ''legacy-1'')])(''NewsID'' := Str (hexdigest (demo_digest ''NVDA|a|t''))),
              (row_of [(''Ticker'', Str ''NVDA''), (''url'', Str ''b''), (''publishedAt'', Str ''t''),
                      (''NewsID'', NaN)])(''NewsID'' := Str (hexdigest (demo_digest ''NVDA|b|t'')))]\<rparr>
   \<and> Str (hexdigest (demo_digest ''NVDA|a|t'')) \<noteq> Str ''legacy-1''"
  by (simp add: ensure_news_id_def empty_df_def row_news_id_def series_of_def series_get_def
        make_news_id_def setitem_def upper_NVDA strip_a strip_b strip_t hexdigest_neq_short)

section \<open>Sentiment: properties\<close>




section \<open>Keeping first occurrences\<close>

lemma keep_first_subset: "set (keep_first seen k xs) \<subseteq> set xs"
  by (induction xs arbitrary: seen) auto

lemma keep_first_fresh: "x \<in> set (keep_first seen k xs) \<Longrightarrow> k x \<notin> set seen"
proof (induction xs arbitrary: seen)
  case Nil then show ?case by simp
next
  case (Cons a xs)
  show ?case
  proof (cases "k a \<in> set seen")
    case True
    with Cons.prems have "x \<in> set (keep_first seen k xs)" by simp
    then show ?thesis by (rule Cons.IH)
  next
    case False
    with Cons.prems have "x = a \<or> x \<in> set (keep_first (k a # seen) k xs)" by auto
    then show ?thesis
    proof
      assume "x = a" with False show ?thesis by simp
    next
      assume "x \<in> set (keep_first (k a # seen) k xs)"
      from Cons.IH[OF this] show ?thesis by simp
    qed
  qed
qed

lemma keep_first_distinct: "distinct (map k (keep_first seen k xs))"
proof (induction xs arbitrary: seen)
  case Nil show ?case by simp
next
  case (Cons a xs)
  have "k a \<notin> k ` set (keep_first (k a # seen) k xs)"
  proof
    assume "k a \<in> k ` set (keep_first (k a # seen) k xs)"
    then obtain y where y: "y \<in> set (keep_first (k a # seen) k xs)" and e: "k a = k y" by auto
    from keep_first_fresh[OF y] e show False by simp
  qed
  with Cons.IH show ?case by simp
qed

lemma keep_first_keys: "k ` set (keep_first seen k xs) \<union> set seen = k ` set xs \<union> set seen"
proof (induction xs arbitrary: seen)
  case Nil show ?case by simp
next
  case (Cons x xs)
  show ?case using Cons.IH[of seen] Cons.IH[of "k x # seen"] by auto
qed

lemma keep_first_seen_cong: "set seen = set seen' \<Longrightarrow> keep_first seen k xs = keep_first seen' k xs"
proof (induction xs arbitrary: seen seen')
  case Nil show ?case by simp
next
  case (Cons x xs)
  have "set (k x # seen) = set (k x # seen')" using Cons.prems by simp
  from Cons.IH[OF this] Cons.IH[OF Cons.prems] show ?case using Cons.prems by simp
qed

lemma keep_first_append:
  "keep_first seen k (xs @ ys) = keep_first seen k xs @ keep_first (map k xs @ seen) k ys"
proof (induction xs arbitrary: seen)
  case Nil show ?case by simp
next
  case (Cons x xs)
  have a: "keep_first (map k xs @ k x # seen) k ys = keep_first (k x # map k xs @ seen) k ys"
    by (rule keep_first_seen_cong) auto
  have b: "k x \<in> set seen \<Longrightarrow> keep_first (map k xs @ seen) k ys = keep_first (k x # map k xs @ seen) k ys"
    by (rule keep_first_seen_cong) auto
  show ?case using Cons.IH[of seen] Cons.IH[of "k x # seen"] a b by simp
qed

lemma keep_first_id:
  "distinct (map k xs) \<Longrightarrow> k ` set xs \<inter> set seen = {} \<Longrightarrow> keep_first seen k xs = xs"
  by (induction xs arbitrary: seen) auto

lemma keep_first_all_seen: "k ` set xs \<subseteq> set seen \<Longrightarrow> keep_first seen k xs = []"
  by (induction xs arbitrary: seen) auto

lemma keep_first_snoc:
  "keep_first seen k (xs @ [x]) =
     keep_first seen k xs @ (if k x \<in> set seen \<union> k ` set xs then [] else [x])"
  by (auto simp: keep_first_append)

lemma keep_first_preserves_distinct:
  "distinct (map f xs) \<Longrightarrow> distinct (map f (keep_first seen k xs))"
proof (induction xs arbitrary: seen)
  case Nil show ?case by simp
next
  case (Cons x xs)
  then show ?case using keep_first_subset[of "k x # seen" k xs] by auto
qed

lemma keep_first_map: "keep_first seen k (map f xs) = map f (keep_first seen (\<lambda>x. k (f x)) xs)"
  by (induction xs arbitrary: seen) auto

lemma keep_first_find:
  "x \<in> set (keep_first seen k xs) \<Longrightarrow> find (\<lambda>y. k y = k x) xs = Some x"
proof (induction xs arbitrary: seen)
  case Nil then show ?case by simp
next
  case (Cons y ys)
  show ?case
  proof (cases "k y \<in> set seen")
    case True
    with Cons.prems have m: "x \<in> set (keep_first seen k ys)" by simp
    from keep_first_fresh[OF m] True have "k y \<noteq> k x" by auto
    with Cons.IH[OF m] show ?thesis by simp
  next
    case False
    with Cons.prems have "x = y \<or> x \<in> set (keep_first (k y # seen) k ys)" by auto
    then show ?thesis
    proof
      assume "x = y" then show ?thesis by simp
    next
      assume m: "x \<in> set (keep_first (k y # seen) k ys)"
      from keep_first_fresh[OF m] have "k y \<noteq> k x" by auto
      with Cons.IH[OF m] show ?thesis by simp
    qed
  qed
qed

lemma apply_rows_total:
  "\<forall>x \<in> set xs. f x = Inr (g x) \<Longrightarrow> apply_rows f xs = Inr (map g xs)"
  by (induction xs) auto

lemma setitem_map:
  "setitem df c (map g (rows df)) = \<lparr>columns = (if c \<in> set (columns df) then columns df else columns df @ [c]),
      rows = map (\<lambda>r. r(c := g r)) (rows df)\<rparr>"
  by (simp add: setitem_def zip_map2 zip_same_conv_map)

lemma dup_key_opt_cell: "dup_key (opt_cell x) = dup_key (opt_cell y) \<longleftrightarrow> x = y"
  by (cases x; cases y) (simp_all add: dup_key_def opt_cell_def)

lemma opt_cell_inj: "opt_cell x = opt_cell y \<longleftrightarrow> x = y"
  by (cases x; cases y) (simp_all add: opt_cell_def)

lemma article_row_url: "article_row t a ''url'' = opt_cell (url a)"
  by (simp add: article_row_def)

lemma row_news_id_article:
  "row_news_id H [''Ticker'', ''source'', ''author'', ''title'', ''description'',
                        ''url'', ''publishedAt'', ''content_snippet''] (article_row t a)
    = Inr (hexdigest (H (upper (upper t) @ ''|'' @ strip (case url a of None \<Rightarrow> [] | Some s \<Rightarrow> s)
         @ ''|'' @ strip (case publishedAt a of None \<Rightarrow> [] | Some s \<Rightarrow> s))))"
  by (simp add: row_news_id_def series_of_def series_get_def article_row_def make_news_id_def or_empty_opt)


lemma article_frame_nonempty:
  "arts \<noteq> [] \<Longrightarrow> \<not> empty_df (article_frame t arts)"
  by (simp add: article_frame_def empty_df_def)

lemma fetch_news_for_ticker_rows:
  assumes "arts \<noteq> []"
  shows "fetch_news_for_ticker H t arts =
     Inr \<lparr>columns = [''Ticker'', ''source'', ''author'', ''title'', ''description'',
                        ''url'', ''publishedAt'', ''content_snippet'', ''NewsID''],
          rows = map (\<lambda>a. (article_row t a)(''NewsID'' := Str (fetched_id H t a)))
                   (keep_first [] (\<lambda>a. dup_key (opt_cell (url a))) arts)\<rparr>"
proof -
  let ?cs = "[''Ticker'', ''source'', ''author'', ''title'', ''description'',
                        ''url'', ''publishedAt'', ''content_snippet'']"
  let ?kept = "keep_first [] (\<lambda>a. dup_key (opt_cell (url a))) arts"
  let ?d = "\<lparr>columns = ?cs, rows = map (article_row t) ?kept\<rparr>"
  have ne: "?kept \<noteq> []" using assms by (cases arts) auto
  have dd: "drop_duplicates (article_frame t arts) ''url'' = Inr ?d"
    using assms by (simp add: drop_duplicates_def article_frame_def empty_df_def keep_first_map article_row_url)
  have ar2: "apply_rows (row_news_id H ?cs) (map (article_row t) xs) = Inr (map (fetched_id H t) xs)" for xs
    by (induction xs) (simp_all add: row_news_id_article fetched_id_def)
  have en: "ensure_news_id H ?d = Inr (setitem ?d ''NewsID'' (map Str (map (fetched_id H t) ?kept)))"
    using ne by (simp add: ensure_news_id_def empty_df_def ar2)
  have si: "setitem ?d ''NewsID'' (map Str (map (fetched_id H t) ?kept))
     = \<lparr>columns = ?cs @ [''NewsID''], rows = map (\<lambda>a. (article_row t a)(''NewsID'' := Str (fetched_id H t a))) ?kept\<rparr>"
    by (simp add: setitem_def zip_map_map zip_same_conv_map)
  show ?thesis
    using assms article_frame_nonempty[OF assms, of t] dd en si
    by (simp add: fetch_news_for_ticker_def Let_def)
qed

lemma fetch_news_for_ticker_none:
  "fetch_news_for_ticker H t [] = Inr \<lparr>columns = [], rows = []\<rparr>"
  by (simp add: fetch_news_for_ticker_def article_frame_def empty_df_def)

text \<open>
  Claim C10. \<open>fetch_news_for_ticker\<close> never raises on the articles of the API, and at
  most one row per URL survives it: the URLs of the rows are pairwise different, every
  row is the first fetched article with its URL (with the NewsID assigned after the
  rows were dropped), and every fetched URL is still there. Two articles with the
  same URL and different timestamps therefore collapse to the first one.
\<close>

theorem fetch_keeps_first_per_url:
  "\<exists>df. fetch_news_for_ticker H ticker arts = Inr df
     \<and> distinct (map (\<lambda>r. r ''url'') (rows df))
     \<and> (\<forall>r \<in> set (rows df). \<exists>a. find (\<lambda>b. url b = url a) arts = Some a
            \<and> r = (article_row ticker a)(''NewsID'' := r ''NewsID''))
     \<and> (\<lambda>r. r ''url'') ` set (rows df) = (\<lambda>a. opt_cell (url a)) ` set arts"
proof (cases "arts = []")
  case True
  then show ?thesis by (simp add: fetch_news_for_ticker_none)
next
  case False
  let ?K = "\<lambda>a. dup_key (opt_cell (url a))"
  let ?kept = "keep_first [] ?K arts"
  let ?row = "\<lambda>a. (article_row ticker a)(''NewsID'' := Str (fetched_id H ticker a))"
  let ?df = "\<lparr>columns = [''Ticker'', ''source'', ''author'', ''title'', ''description'',
                        ''url'', ''publishedAt'', ''content_snippet'', ''NewsID''],
          rows = map ?row ?kept\<rparr>"
  have r: "fetch_news_for_ticker H ticker arts = Inr ?df"
    by (rule fetch_news_for_ticker_rows[OF False])
  have u: "map (\<lambda>r. r ''url'') (rows ?df) = map (\<lambda>a. opt_cell (url a)) ?kept"
    by (simp add: article_row_url comp_def)
  have "distinct (map ?K ?kept)" by (rule keep_first_distinct)
  then have "distinct (map (\<lambda>a. opt_cell (url a)) ?kept)"
    by (simp add: distinct_map inj_on_def)
  then have d: "distinct (map (\<lambda>r. r ''url'') (rows ?df))" unfolding u .
  have f: "\<forall>r \<in> set (rows ?df). \<exists>a. find (\<lambda>b. url b = url a) arts = Some a
            \<and> r = (article_row ticker a)(''NewsID'' := r ''NewsID'')"
  proof
    fix r assume "r \<in> set (rows ?df)"
    then obtain a where a: "a \<in> set ?kept" and ra: "r = ?row a" by auto
    from keep_first_find[OF a] have "find (\<lambda>b. ?K b = ?K a) arts = Some a" .
    then have "find (\<lambda>b. url b = url a) arts = Some a" by (simp add: dup_key_opt_cell)
    moreover have "r = (article_row ticker a)(''NewsID'' := r ''NewsID'')" using ra by simp
    ultimately show "\<exists>a. find (\<lambda>b. url b = url a) arts = Some a
            \<and> r = (article_row ticker a)(''NewsID'' := r ''NewsID'')" by blast
  qed
  have ks: "?K ` set ?kept = ?K ` set arts" using keep_first_keys[of ?K "[]" arts] by simp
  have i1: "(\<lambda>a. opt_cell (url a)) ` set ?kept \<subseteq> (\<lambda>a. opt_cell (url a)) ` set arts"
    using keep_first_subset[of "[]" ?K arts] by blast
  have i2: "(\<lambda>a. opt_cell (url a)) ` set arts \<subseteq> (\<lambda>a. opt_cell (url a)) ` set ?kept"
  proof
    fix v assume "v \<in> (\<lambda>a. opt_cell (url a)) ` set arts"
    then obtain a where a: "a \<in> set arts" and v: "v = opt_cell (url a)" by auto
    from a have "?K a \<in> ?K ` set ?kept" unfolding ks by (rule imageI)
    then obtain b where b: "b \<in> set ?kept" and e: "?K a = ?K b" by auto
    from e have "url a = url b" by (simp only: dup_key_opt_cell)
    with v b show "v \<in> (\<lambda>a. opt_cell (url a)) ` set ?kept" by auto
  qed
  have "(\<lambda>r. r ''url'') ` set (rows ?df) = set (map (\<lambda>r. r ''url'') (rows ?df))" by (simp only: set_map)
  also have "\<dots> = set (map (\<lambda>a. opt_cell (url a)) ?kept)" by (simp only: u)
  also have "\<dots> = (\<lambda>a. opt_cell (url a)) ` set ?kept" by (simp only: set_map)
  also have "\<dots> = (\<lambda>a. opt_cell (url a)) ` set arts" using i1 i2 by (rule equalityI)
  finally have k: "(\<lambda>r. r ''url'') ` set (rows ?df) = (\<lambda>a. opt_cell (url a)) ` set arts" .
  from r d f k show ?thesis by blast
qed


lemma strip_u: "strip ''u'' = ''u''" by code_simp
lemma strip_t1: "strip ''t1'' = ''t1''" by code_simp

theorem fetch_keeps_first_per_url_witness:
  "fetch_news_for_ticker demo_digest ''NVDA''
     [\<lparr>source = None, author = None, title = Some ''X'', description = None,
       url = Some ''u'', publishedAt = Some ''t1'', content = None\<rparr>,
      \<lparr>source = None, author = None, title = Some ''X'', description = None,
       url = Some ''u'', publishedAt = Some ''t2'', content = None\<rparr>]
   = Inr \<lparr>columns = [''Ticker'', ''source'', ''author'', ''title'', ''description'',
                        ''url'', ''publishedAt'', ''content_snippet'', ''NewsID''],
          rows = [(article_row ''NVDA''
                     \<lparr>source = None, author = None, title = Some ''X'', description = None,
                      url = Some ''u'', publishedAt = Some ''t1'', content = None\<rparr>)
                  (''NewsID'' := Str (hexdigest (demo_digest ''NVDA|u|t1'')))]\<rparr>
   \<and> distinct (map (\<lambda>r. r ''url'')
         (rows \<lparr>columns = [''Ticker'', ''source'', ''author'', ''title'', ''description'',
                        ''url'', ''publishedAt'', ''content_snippet'', ''NewsID''],
          rows = [(article_row ''NVDA''
                     \<lparr>source = None, author = None, title = Some ''X'', description = None,
                      url = Some ''u'', publishedAt = Some ''t1'', content = None\<rparr>)
                  (''NewsID'' := Str (hexdigest (demo_digest ''NVDA|u|t1'')))]\<rparr>))"
proof -
  let ?a1 = "\<lparr>source = None, author = None, title = Some ''X'', description = None,
       url = Some ''u'', publishedAt = Some ''t1'', content = None\<rparr>"
  let ?a2 = "\<lparr>source = None, author = None, title = Some ''X'', description = None,
       url = Some ''u'', publishedAt = Some ''t2'', content = None\<rparr>"
  let ?D = "\<lparr>columns = [''Ticker'', ''source'', ''author'', ''title'', ''description'',
                        ''url'', ''publishedAt'', ''content_snippet'', ''NewsID''],
          rows = [(article_row ''NVDA'' ?a1)(''NewsID'' := Str (hexdigest (demo_digest ''NVDA|u|t1'')))]\<rparr>"
  have ev: "fetch_news_for_ticker demo_digest ''NVDA'' [?a1, ?a2] = Inr ?D"
    by (simp add: fetch_news_for_ticker_rows dup_key_def opt_cell_def fetched_id_def
          upper_NVDA strip_u strip_t1)
  from fetch_keeps_first_per_url[of demo_digest "''NVDA''" "[?a1, ?a2]"]
  obtain df where a: "fetch_news_for_ticker demo_digest ''NVDA'' [?a1, ?a2] = Inr df"
    and d: "distinct (map (\<lambda>r. r ''url'') (rows df))" by blast
  from a ev have e: "df = ?D" by simp
  note d' = d[unfolded e]
  from ev d' show ?thesis by (rule conjI)
qed

section \<open>Sentiment over a table\<close>

lemma assign_masked_map:
  "length bs = length rs \<Longrightarrow> length ws = length rs \<Longrightarrow>
   assign_masked bs c rs (map snd (filter fst (zip bs ws)))
     = map (\<lambda>(b, r, w). if b then r(c := w) else r) (zip bs (zip rs ws))"
proof (induction bs arbitrary: rs ws)
  case Nil then show ?case by simp
next
  case (Cons b bs)
  then obtain r rs' w ws' where rs: "rs = r # rs'" and ws: "ws = w # ws'"
    by (cases rs; cases ws) auto
  from Cons.prems rs ws have l: "length bs = length rs'" "length ws' = length rs'" by auto
  show ?case using Cons.IH[OF l] rs ws by (cases b) simp_all
qed

lemma assign_masked_nth:
  assumes "length bs = length rs" "length ws = length rs" "i < length rs"
  shows "assign_masked bs c rs (map snd (filter fst (zip bs ws))) ! i
           = (if bs ! i then (rs ! i)(c := ws ! i) else rs ! i)"
  using assms by (simp add: assign_masked_map)

lemma assign_masked_length:
  assumes "length bs = length rs" "length ws = length rs"
  shows "length (assign_masked bs c rs (map snd (filter fst (zip bs ws)))) = length rs"
  using assms by (simp add: assign_masked_map)

lemma select_rows_values:
  "map f (select_rows bs rs) = map snd (filter fst (zip bs (map f rs)))"
proof (induction bs arbitrary: rs)
  case Nil show ?case by (simp add: select_rows_def)
next
  case (Cons b bs)
  show ?case
  proof (cases rs)
    case Nil then show ?thesis by (simp add: select_rows_def)
  next
    case (Cons r rs')
    with Cons.IH[of rs'] show ?thesis by (simp add: select_rows_def)
  qed
qed

lemma select_rows_filter: "select_rows (map m rs) rs = filter m rs"
  by (induction rs) (simp_all add: select_rows_def)

lemma parts_of_upd: "c \<notin> set cs \<Longrightarrow> parts_of (r(c := v)) cs = parts_of r cs"
  by (induction cs) (auto split: cell.splits)

lemma row_text_upd: "c \<notin> set text_columns \<Longrightarrow> row_text (r(c := v)) = row_text r"
  by (simp add: row_text_def parts_of_upd)


lemma zip_const_upd:
  "length xs = length rs \<Longrightarrow>
   map (\<lambda>(r, w). r(c := w)) (zip rs (map (\<lambda>_. v) xs)) = map (\<lambda>r. r(c := v)) rs"
  by (induction xs rs rule: list_induct2) auto

lemma setitem_const:
  "length xs = length (rows df) \<Longrightarrow>
   rows (setitem df c (map (\<lambda>_. v) xs)) = map (\<lambda>r. r(c := v)) (rows df)"
  by (simp add: setitem_def zip_const_upd)

lemma ensure_sentiment_nonempty:
  assumes ne: "\<not> empty_df df" and ok: "ensure_sentiment sia df = Inr (d, calls)"
  shows "rows d = map (\<lambda>r. if ''sentiment_score'' \<in> set (columns df) \<and> \<not> isna (r ''sentiment_score'')
                          then (if ''sentiment_label'' \<in> set (columns df) then r else r(''sentiment_label'' := PdNA))
                          else r(''sentiment_score'' := score_cell (fst (fst (sentiment_for_text sia (row_text r)))),
                                 ''sentiment_label'' := label_cell (snd (fst (sentiment_for_text sia (row_text r))))))
                  (rows df)"
    and "calls = concat (map (\<lambda>r. snd (sentiment_for_text sia (row_text r)))
                  (filter (\<lambda>r. ''sentiment_score'' \<notin> set (columns df) \<or> isna (r ''sentiment_score'')) (rows df)))"
proof -
  define prep where "prep = (\<lambda>r::row.
     let r1 = (if ''sentiment_score'' \<notin> set (columns df) then r(''sentiment_score'' := NaN) else r)
     in if ''sentiment_label'' \<notin> set (columns df) then r1(''sentiment_label'' := PdNA) else r1)"
  define df1 where "df1 = (if ''sentiment_score'' \<notin> set (columns df)
                   then setitem df ''sentiment_score'' (map (\<lambda>_. NaN) (rows df)) else df)"
  define df2 where "df2 = (if ''sentiment_label'' \<notin> set (columns df1)
                   then setitem df1 ''sentiment_label'' (map (\<lambda>_. PdNA) (rows df1)) else df1)"
  define needs where "needs = map (\<lambda>r. isna (r ''sentiment_score'')) (rows df2)"
  define h where "h = (\<lambda>r. sentiment_for_text sia (row_text r))"
  define nul where "nul = (\<lambda>r::row. ''sentiment_score'' \<notin> set (columns df) \<or> isna (r ''sentiment_score''))"
  have l1: "''sentiment_label'' \<in> set (columns df1) \<longleftrightarrow> ''sentiment_label'' \<in> set (columns df)"
    by (simp add: df1_def setitem_def)
  have r1: "rows df1 = map (\<lambda>r. if ''sentiment_score'' \<notin> set (columns df) then r(''sentiment_score'' := NaN) else r) (rows df)"
    by (simp add: df1_def setitem_const)
  have r2: "rows df2 = map prep (rows df)"
    by (simp add: df2_def l1 setitem_const prep_def Let_def comp_def) (simp add: r1)
  have tx: "row_text (prep r) = row_text r" for r
    by (simp add: prep_def Let_def row_text_upd text_columns_def)
  have hp: "h (prep r) = h r" for r by (simp add: h_def tx)
  have np: "isna (prep r ''sentiment_score'') \<longleftrightarrow> nul r" for r
    by (simp add: prep_def nul_def Let_def)
  have pn: "\<not> nul r \<Longrightarrow> prep r = (if ''sentiment_label'' \<in> set (columns df) then r else r(''sentiment_label'' := PdNA))" for r
    by (simp add: prep_def nul_def Let_def)
  have pu: "nul r \<Longrightarrow> (prep r)(''sentiment_score'' := a, ''sentiment_label'' := b) = r(''sentiment_score'' := a, ''sentiment_label'' := b)" for r a b
    by (auto simp: prep_def nul_def Let_def fun_eq_iff)
  have nd: "needs = map nul (rows df)" by (simp add: needs_def r2 np)
  from ok ne have ok': "(if \<not> (\<exists>b \<in> set needs. b) then Inr (df2, [])
           else (case filter (\<lambda>c. c \<notin> set (columns df2)) text_columns of
                   c # _ \<Rightarrow> Inl (KeyError c)
                 | [] \<Rightarrow>
                     let results = map h (select_rows needs (rows df2));
                         scores = map (\<lambda>res. score_cell (fst (fst res))) results;
                         labels = map (\<lambda>res. label_cell (snd (fst res))) results;
                         rs1 = assign_masked needs ''sentiment_score'' (rows df2) scores;
                         rs2 = assign_masked needs ''sentiment_label'' rs1 labels
                     in Inr (df2\<lparr>rows := rs2\<rparr>, concat (map snd results)))) = Inr (d, calls)"
    unfolding ensure_sentiment_def df1_def[symmetric] Let_def df2_def[symmetric] needs_def[symmetric] h_def[symmetric]
    by simp
  let ?goal_rows = "map (\<lambda>r. if \<not> nul r
                          then (if ''sentiment_label'' \<in> set (columns df) then r else r(''sentiment_label'' := PdNA))
                          else r(''sentiment_score'' := score_cell (fst (fst (h r))),
                                 ''sentiment_label'' := label_cell (snd (fst (h r))))) (rows df)"
  have both: "rows d = ?goal_rows \<and> calls = concat (map (\<lambda>r. snd (h r)) (filter nul (rows df)))"
  proof (cases "\<exists>b \<in> set needs. b")
    case False
    with ok' have d: "d = df2" and c: "calls = []" by auto
    from False have nn: "\<forall>r \<in> set (rows df). \<not> nul r" by (auto simp: nd)
    have "rows d = ?goal_rows" using nn by (simp add: d r2 pn)
    moreover have "filter nul (rows df) = []" using nn by (simp add: filter_empty_conv)
    ultimately show ?thesis using c by simp
  next
    case True
    with ok' obtain results scores labels rs1 rs2 where
      res: "results = map h (select_rows needs (rows df2))" and
      sc: "scores = map (\<lambda>res. score_cell (fst (fst res))) results" and
      lb: "labels = map (\<lambda>res. label_cell (snd (fst res))) results" and
      a1: "rs1 = assign_masked needs ''sentiment_score'' (rows df2) scores" and
      a2: "rs2 = assign_masked needs ''sentiment_label'' rs1 labels" and
      d: "d = df2\<lparr>rows := rs2\<rparr>" and c: "calls = concat (map snd results)"
      by (auto simp: Let_def split: list.splits)
    let ?ws = "map (\<lambda>r. score_cell (fst (fst (h r)))) (rows df2)"
    let ?ls = "map (\<lambda>r. label_cell (snd (fst (h r)))) (rows df2)"
    have sc': "scores = map snd (filter fst (zip needs ?ws))"
      unfolding sc res map_map comp_def by (rule select_rows_values)
    have lb': "labels = map snd (filter fst (zip needs ?ls))"
      unfolding lb res map_map comp_def by (rule select_rows_values)
    have ln: "length needs = length (rows df2)" by (simp add: needs_def)
    have lr: "length (rows df2) = length (rows df)" by (simp add: r2)
    have l1': "length rs1 = length (rows df2)"
      unfolding a1 sc' by (rule assign_masked_length) (simp_all add: ln)
    have l2': "length rs2 = length (rows df2)"
      unfolding a2 lb' using assign_masked_length[of needs rs1 ?ls] ln l1' by simp
    have "rs2 = ?goal_rows"
    proof (rule nth_equalityI)
      show "length rs2 = length ?goal_rows" using l2' lr by simp
    next
      fix i assume "i < length rs2"
      then have i: "i < length (rows df)" using l2' lr by simp
      have n1: "rs1 ! i = (if needs ! i then (rows df2 ! i)(''sentiment_score'' := ?ws ! i) else rows df2 ! i)"
        unfolding a1 sc' using i ln lr by (intro assign_masked_nth) simp_all
      have n2: "rs2 ! i = (if needs ! i then (rs1 ! i)(''sentiment_label'' := ?ls ! i) else rs1 ! i)"
        unfolding a2 lb' using i ln lr l1' by (intro assign_masked_nth) simp_all
      have ni: "needs ! i = nul (rows df ! i)" using i by (simp add: nd)
      have ri: "rows df2 ! i = prep (rows df ! i)" using i by (simp add: r2)
      show "rs2 ! i = ?goal_rows ! i"
        using i lr by (simp add: n1 n2 ni ri hp pn pu)
    qed
    then have "rows d = ?goal_rows" by (simp add: d)
    moreover have "select_rows needs (rows df2) = filter (\<lambda>r. isna (r ''sentiment_score'')) (rows df2)"
      unfolding needs_def by (rule select_rows_filter)
    then have "results = map h (filter (\<lambda>r. isna (r ''sentiment_score'')) (map prep (rows df)))"
      by (simp add: res r2)
    then have "results = map h (filter nul (rows df))"
      by (simp add: filter_map comp_def np hp)
    then have "calls = concat (map (\<lambda>r. snd (h r)) (filter nul (rows df)))"
      by (simp add: c comp_def)
    ultimately show ?thesis by simp
  qed
  from both have x: "rows d = ?goal_rows" and y: "calls = concat (map (\<lambda>r. snd (h r)) (filter nul (rows df)))" by auto
  show "rows d = map (\<lambda>r. if ''sentiment_score'' \<in> set (columns df) \<and> \<not> isna (r ''sentiment_score'')
                          then (if ''sentiment_label'' \<in> set (columns df) then r else r(''sentiment_label'' := PdNA))
                          else r(''sentiment_score'' := score_cell (fst (fst (sentiment_for_text sia (row_text r)))),
                                 ''sentiment_label'' := label_cell (snd (fst (sentiment_for_text sia (row_text r))))))
                  (rows df)"
    using x by (simp add: nul_def h_def)
  show "calls = concat (map (\<lambda>r. snd (sentiment_for_text sia (row_text r)))
                  (filter (\<lambda>r. ''sentiment_score'' \<notin> set (columns df) \<or> isna (r ''sentiment_score'')) (rows df)))"
    using y by (simp add: nul_def h_def)
qed

lemma ensure_sentiment_empty:
  "empty_df df \<Longrightarrow> ensure_sentiment sia df = Inr (df, [])"
  by (simp add: ensure_sentiment_def)


text \<open>
  Claim C7. When \<open>ensure_sentiment\<close> returns, the table has the same rows in the same
  order; a row that held a non-null score is as it was (a label column the table
  lacked is added, null for such a row); a row whose score is null or whose table has
  no score column gets the score and the label computed from its text; and the scorer
  is called for the rows with a null score only, in order. (A table without any
  column is returned as it is: its rows have no cells.)
\<close>

theorem ensure_sentiment_only_null_scores:
  assumes "ensure_sentiment sia df = Inr (d, calls)"
  shows "length (rows d) = length (rows df)
     \<and> (\<forall>i < length (rows df).
          if ''sentiment_score'' \<in> set (columns df) \<and> \<not> isna ((rows df ! i) ''sentiment_score'')
          then rows d ! i = (if ''sentiment_label'' \<in> set (columns df) then rows df ! i
                             else (rows df ! i)(''sentiment_label'' := PdNA))
          else columns df \<noteq> [] \<longrightarrow>
               rows d ! i = (rows df ! i)
                 (''sentiment_score'' := score_cell (fst (fst (sentiment_for_text sia (row_text (rows df ! i))))),
                  ''sentiment_label'' := label_cell (snd (fst (sentiment_for_text sia (row_text (rows df ! i)))))))
     \<and> calls = (if columns df = [] then []
                else concat (map (\<lambda>r. snd (sentiment_for_text sia (row_text r)))
                       (filter (\<lambda>r. ''sentiment_score'' \<notin> set (columns df) \<or> isna (r ''sentiment_score''))
                          (rows df))))"
proof (cases "empty_df df")
  case True
  with assms have d: "d = df" and c: "calls = []" by (simp_all add: ensure_sentiment_empty)
  from True have "rows df = [] \<or> columns df = []" by (simp add: empty_df_def)
  then show ?thesis
  proof
    assume "rows df = []" then show ?thesis using d c by simp
  next
    assume "columns df = []" then show ?thesis using d c by simp
  qed
next
  case False
  note r = ensure_sentiment_nonempty(1)[OF False assms]
  note c = ensure_sentiment_nonempty(2)[OF False assms]
  from False have cn: "columns df \<noteq> []" by (simp add: empty_df_def)
  have "length (rows d) = length (rows df)" by (simp add: r)
  moreover have "\<forall>i < length (rows df).
          if ''sentiment_score'' \<in> set (columns df) \<and> \<not> isna ((rows df ! i) ''sentiment_score'')
          then rows d ! i = (if ''sentiment_label'' \<in> set (columns df) then rows df ! i
                             else (rows df ! i)(''sentiment_label'' := PdNA))
          else columns df \<noteq> [] \<longrightarrow>
               rows d ! i = (rows df ! i)
                 (''sentiment_score'' := score_cell (fst (fst (sentiment_for_text sia (row_text (rows df ! i))))),
                  ''sentiment_label'' := label_cell (snd (fst (sentiment_for_text sia (row_text (rows df ! i))))))"
    by (simp add: r)
  ultimately show ?thesis using c cn by simp
qed

lemma strip_Good1: "strip ''Good'' = ''Good''" by code_simp

theorem ensure_sentiment_only_null_scores_witness:
  "ensure_sentiment (\<lambda>_. 1 / 2)
     \<lparr>columns = [''title'', ''description'', ''content_snippet'', ''sentiment_score'', ''sentiment_label''],
      rows = [row_of [(''title'', Str ''Bad''), (''sentiment_score'', Num (3 / 10)),
                      (''sentiment_label'', Str ''negative'')],
              row_of [(''title'', Str ''Good'')]]\<rparr>
   = Inr (\<lparr>columns = [''title'', ''description'', ''content_snippet'', ''sentiment_score'', ''sentiment_label''],
      rows = [row_of [(''title'', Str ''Bad''), (''sentiment_score'', Num (3 / 10)),
                      (''sentiment_label'', Str ''negative'')],
              (row_of [(''title'', Str ''Good'')])
                (''sentiment_score'' := Num (1 / 2), ''sentiment_label'' := Str ''positive'')]\<rparr>,
          [''Good''])
   \<and> [''Good''] = concat (map (\<lambda>r. snd (sentiment_for_text (\<lambda>_. 1 / 2) (row_text r)))
                       [row_of [(''title'', Str ''Good'')]])"
proof -
  let ?r0 = "row_of [(''title'', Str ''Bad''), (''sentiment_score'', Num (3 / 10)),
                      (''sentiment_label'', Str ''negative'')]"
  let ?r1 = "row_of [(''title'', Str ''Good'')]"
  let ?cs = "[''title'', ''description'', ''content_snippet'', ''sentiment_score'', ''sentiment_label'']"
  let ?F = "\<lparr>columns = ?cs, rows = [?r0, ?r1]\<rparr>"
  let ?G = "\<lparr>columns = ?cs, rows = [?r0, ?r1(''sentiment_score'' := Num (1 / 2), ''sentiment_label'' := Str ''positive'')]\<rparr>"
  have ev: "ensure_sentiment (\<lambda>_. 1 / 2) ?F = Inr (?G, [''Good''])"
    by (simp add: ensure_sentiment_def empty_df_def select_rows_def text_columns_def
          sentiment_for_text_def row_text_def score_cell_def label_cell_def Let_def strip_Good1)
  from ensure_sentiment_only_null_scores[OF ev]
  have "[''Good''] = concat (map (\<lambda>r. snd (sentiment_for_text (\<lambda>_. 1 / 2) (row_text r)))
                       (filter (\<lambda>r. ''sentiment_score'' \<notin> set ?cs \<or> isna (r ''sentiment_score''))
                          [?r0, ?r1]))"
    by simp
  then have "[''Good''] = concat (map (\<lambda>r. snd (sentiment_for_text (\<lambda>_. 1 / 2) (row_text r))) [?r1])"
    by simp
  with ev show ?thesis by (rule conjI)
qed


section \<open>The identity functions on tables that have their identities\<close>

lemma has_keysD:
  assumes "has_keys df"
  shows "''NewsID'' \<in> set (columns df)" "''ArticleKey'' \<in> set (columns df)"
    "\<And>r. r \<in> set (rows df) \<Longrightarrow> \<not> isna (r ''NewsID'')"
    "\<And>r. r \<in> set (rows df) \<Longrightarrow> \<not> isna (r ''ArticleKey'')"
  using assms by (auto simp: has_keys_def list_all_iff)

lemma ensure_news_id_keyed: "has_keys df \<Longrightarrow> ensure_news_id H df = Inr df"
  by (auto simp: ensure_news_id_def has_keys_def list_all_iff)

lemma ensure_article_key_keyed: "has_keys df \<Longrightarrow> ensure_article_key H df = Inr df"
  by (auto simp: ensure_article_key_def has_keys_def list_all_iff)

lemma load_existing_keyed: "has_keys df \<Longrightarrow> load_existing H df = Inr df"
  by (simp add: load_existing_def ensure_news_id_keyed ensure_article_key_keyed)

lemma dup_key_notna: "\<not> isna v \<Longrightarrow> dup_key v = Some v"
  by (simp add: dup_key_def)

lemma keep_first_inj_key:
  "inj j \<Longrightarrow> \<forall>x \<in> set xs. k x = j (k' x) \<Longrightarrow> keep_first (map j seen) k xs = keep_first seen k' xs"
proof (induction xs arbitrary: seen)
  case Nil show ?case by simp
next
  case (Cons x xs)
  from Cons.prems have kx: "k x = j (k' x)" and rest: "\<forall>x \<in> set xs. k x = j (k' x)" by auto
  have m: "j (k' x) \<in> j ` set seen \<longleftrightarrow> k' x \<in> set seen"
    using Cons.prems(1) by (auto dest: injD)
  show ?case
    using Cons.IH[OF Cons.prems(1) rest, of seen] Cons.IH[OF Cons.prems(1) rest, of "k' x # seen"]
    by (simp add: kx m)
qed

lemma keep_first_dup_key:
  assumes "\<forall>r \<in> set xs. \<not> isna (r c)"
  shows "keep_first [] (\<lambda>r. dup_key (r c)) xs = keep_first [] (\<lambda>r. r c) xs"
proof -
  have "keep_first (map Some []) (\<lambda>r. dup_key (r c)) xs = keep_first [] (\<lambda>r. r c) xs"
    using assms by (intro keep_first_inj_key) (auto simp: dup_key_notna)
  then show ?thesis by simp
qed

lemma keep_first_nonempty: "xs \<noteq> [] \<Longrightarrow> keep_first [] k xs \<noteq> []"
  by (cases xs) auto

lemma dedup_pass_keyed:
  assumes "has_keys df"
  shows "dedup_pass H df =
     Inr (if empty_df df then df
          else df\<lparr>rows := keep_first [] (\<lambda>r. r ''ArticleKey'')
                            (keep_first [] (\<lambda>r. r ''NewsID'') (rows df))\<rparr>)"
proof (cases "empty_df df")
  case True
  then show ?thesis
    by (simp add: dedup_pass_def ensure_article_key_keyed[OF assms] drop_duplicates_def)
next
  case False
  let ?k1 = "keep_first [] (\<lambda>r. r ''NewsID'') (rows df)"
  have n1: "keep_first [] (\<lambda>r. dup_key (r ''NewsID'')) (rows df) = ?k1"
    using has_keysD(3)[OF assms] by (intro keep_first_dup_key) auto
  have s1: "set ?k1 \<subseteq> set (rows df)" by (rule keep_first_subset)
  have n2: "keep_first [] (\<lambda>r. dup_key (r ''ArticleKey'')) ?k1 = keep_first [] (\<lambda>r. r ''ArticleKey'') ?k1"
    using has_keysD(4)[OF assms] s1 by (intro keep_first_dup_key) auto
  have ne: "?k1 \<noteq> []" using False by (intro keep_first_nonempty) (simp add: empty_df_def)
  show ?thesis
    using False has_keysD(1,2)[OF assms] ne
    by (simp add: dedup_pass_def ensure_article_key_keyed[OF assms] drop_duplicates_def
          empty_df_def n1 n2)
qed

lemma dedup_pass_unique: "unique_keys df \<Longrightarrow> dedup_pass H df = Inr df"
  by (simp add: unique_keys_def dedup_pass_keyed keep_first_id)

section \<open>Concatenation\<close>

lemma reindex_in: "c \<in> set cols \<Longrightarrow> reindex cols r c = r c"
  by (simp add: reindex_def)

lemma concat_frames_two:
  "rows (concat_frames [a, b]) = map (reindex (columns a)) (rows a) @ map (reindex (columns b)) (rows b)"
  "set (columns (concat_frames [a, b])) = set (columns a) \<union> set (columns b)"
  by (auto simp: concat_frames_def)


lemma has_keys_subrows:
  "has_keys df \<Longrightarrow> set rs \<subseteq> set (rows df) \<Longrightarrow> has_keys (df\<lparr>rows := rs\<rparr>)"
  by (auto simp: has_keys_def list_all_iff)

lemma dedup_pass_gives_unique:
  assumes hk: "has_keys C" and ok: "dedup_pass H C = Inr F"
  shows "unique_keys F"
proof (cases "empty_df C")
  case True
  with ok hk have "F = C" by (simp add: dedup_pass_keyed)
  moreover from True hk have "rows C = []" by (auto simp: empty_df_def has_keys_def)
  ultimately show ?thesis using hk by (simp add: unique_keys_def)
next
  case False
  let ?k1 = "keep_first [] (\<lambda>r. r ''NewsID'') (rows C)"
  let ?k2 = "keep_first [] (\<lambda>r. r ''ArticleKey'') ?k1"
  from ok hk False have F: "F = C\<lparr>rows := ?k2\<rparr>" by (simp add: dedup_pass_keyed)
  have sub: "set ?k2 \<subseteq> set (rows C)"
    using keep_first_subset[of "[]" "\<lambda>r. r ''ArticleKey''" ?k1]
      keep_first_subset[of "[]" "\<lambda>r. r ''NewsID''" "rows C"] by blast
  have h: "has_keys F" unfolding F using hk sub by (rule has_keys_subrows)
  have d1: "distinct (map (\<lambda>r. r ''NewsID'') ?k2)"
    by (intro keep_first_preserves_distinct keep_first_distinct)
  have d2: "distinct (map (\<lambda>r. r ''ArticleKey'') ?k2)" by (rule keep_first_distinct)
  show ?thesis using h d1 d2 by (simp add: unique_keys_def F)
qed

lemma merge_new_cases:
  assumes "''NewsID'' \<in> set (columns A)" "''NewsID'' \<in> set (columns B)"
  shows "\<exists>n. merge_new A B =
     Inr (n, if filter (\<lambda>r. r ''NewsID'' \<notin> set (map (\<lambda>r. r ''NewsID'') (rows A))) (rows B) = [] then A
             else concat_frames [A, B\<lparr>rows := filter (\<lambda>r. r ''NewsID'' \<notin> set (map (\<lambda>r. r ''NewsID'') (rows A))) (rows B)\<rparr>])"
  using assms by (simp add: merge_new_def getitem_def Let_def)

lemma merge_unfold:
  assumes "load_existing H B = Inr B'" "load_existing H A = Inr A'" "merge_new A' B' = Inr (n, F)"
  shows "merge H (Some A) B = dedup_pass H F"
  using assms by (simp add: merge_def merge_batch_def)

lemma merge_concat_dedup:
  assumes uA: "unique_keys A" and hB: "has_keys B"
    and N: "N = filter (\<lambda>r. r ''NewsID'' \<notin> set (map (\<lambda>r. r ''NewsID'') (rows A))) (rows B)"
    and ne: "N \<noteq> []"
  shows "dedup_pass H (concat_frames [A, B\<lparr>rows := N\<rparr>]) =
     Inr ((concat_frames [A, B\<lparr>rows := N\<rparr>])
          \<lparr>rows := map (reindex (columns A)) (rows A) @
                   map (reindex (columns B))
                     (keep_first (map (\<lambda>r. r ''ArticleKey'') (rows A)) (\<lambda>r. r ''ArticleKey'')
                        (keep_first (map (\<lambda>r. r ''NewsID'') (rows A)) (\<lambda>r. r ''NewsID'') N))\<rparr>)"
proof -
  let ?C = "concat_frames [A, B\<lparr>rows := N\<rparr>]"
  let ?A' = "map (reindex (columns A)) (rows A)"
  let ?N' = "map (reindex (columns B)) N"
  from uA have hA: "has_keys A" by (simp add: unique_keys_def)
  note a = has_keysD[OF hA] and b = has_keysD[OF hB]
  have rC: "rows ?C = ?A' @ ?N'" by (simp add: concat_frames_two)
  have NB: "set N \<subseteq> set (rows B)" by (auto simp: N)
  have hC: "has_keys ?C"
    using a b NB by (auto simp: has_keys_def list_all_iff concat_frames_two reindex_in)
  have neC: "\<not> empty_df ?C" using ne a(1) by (auto simp: empty_df_def rC concat_frames_def)
  have idA: "map (\<lambda>r. r ''NewsID'') ?A' = map (\<lambda>r. r ''NewsID'') (rows A)"
    using a(1) by (simp add: reindex_in)
  have akA: "map (\<lambda>r. r ''ArticleKey'') ?A' = map (\<lambda>r. r ''ArticleKey'') (rows A)"
    using a(2) by (simp add: reindex_in)
  have dA: "distinct (map (\<lambda>r. r ''NewsID'') ?A')" "distinct (map (\<lambda>r. r ''ArticleKey'') ?A')"
    unfolding idA akA using uA by (simp_all add: unique_keys_def)
  have fB: "(\<lambda>x. reindex (columns B) x ''NewsID'') = (\<lambda>x. x ''NewsID'')"
      "(\<lambda>x. reindex (columns B) x ''ArticleKey'') = (\<lambda>x. x ''ArticleKey'')"
    using b(1,2) by (simp_all add: reindex_in)
  have k1: "keep_first [] (\<lambda>r. r ''NewsID'') ?A' = ?A'"
    using dA(1) by (intro keep_first_id) simp_all
  have k2: "keep_first (map (\<lambda>r. r ''NewsID'') ?A' @ []) (\<lambda>r. r ''NewsID'') ?N'
          = map (reindex (columns B)) (keep_first (map (\<lambda>r. r ''NewsID'') (rows A)) (\<lambda>r. r ''NewsID'') N)"
    unfolding idA by (simp add: keep_first_map fB)
  have s1: "keep_first [] (\<lambda>r. r ''NewsID'') (?A' @ ?N')
          = ?A' @ map (reindex (columns B)) (keep_first (map (\<lambda>r. r ''NewsID'') (rows A)) (\<lambda>r. r ''NewsID'') N)"
    by (simp only: keep_first_append k1 k2)
  have k3: "keep_first [] (\<lambda>r. r ''ArticleKey'') ?A' = ?A'"
    using dA(2) by (intro keep_first_id) simp_all
  have k4: "keep_first (map (\<lambda>r. r ''ArticleKey'') ?A' @ []) (\<lambda>r. r ''ArticleKey'') (map (reindex (columns B)) X)
          = map (reindex (columns B)) (keep_first (map (\<lambda>r. r ''ArticleKey'') (rows A)) (\<lambda>r. r ''ArticleKey'') X)" for X
    unfolding akA by (simp add: keep_first_map fB)
  have s2: "keep_first [] (\<lambda>r. r ''ArticleKey'') (?A' @ map (reindex (columns B)) X)
          = ?A' @ map (reindex (columns B)) (keep_first (map (\<lambda>r. r ''ArticleKey'') (rows A)) (\<lambda>r. r ''ArticleKey'') X)" for X
    by (simp only: keep_first_append k3 k4)
  show ?thesis
    using neC by (simp add: dedup_pass_keyed[OF hC] rC s1 s2)
qed

lemma merge_known:
  assumes uA: "unique_keys A" and lB: "load_existing H B = Inr B'"
    and cB: "''NewsID'' \<in> set (columns B')"
    and known: "\<forall>r \<in> set (rows B'). r ''NewsID'' \<in> set (map (\<lambda>r. r ''NewsID'') (rows A))"
  shows "merge H (Some A) B = Inr A"
proof -
  from uA have hA: "has_keys A" by (simp add: unique_keys_def)
  have f: "filter (\<lambda>r. r ''NewsID'' \<notin> set (map (\<lambda>r. r ''NewsID'') (rows A))) (rows B') = []"
    using known by (simp add: filter_empty_conv)
  from merge_new_cases[OF has_keysD(1)[OF hA] cB] obtain n where "merge_new A B' = Inr (n, A)"
    unfolding f by auto
  from merge_unfold[OF lB load_existing_keyed[OF hA] this] show ?thesis
    by (simp add: dedup_pass_unique[OF uA])
qed


section \<open>Merging: properties\<close>

text \<open>
  A batch of known rows that has its NewsID column. The archive has unique identity
  columns: both columns are there, every row has a NewsID and an ArticleKey, and no
  two rows share one. The batch is taken after its identities were assigned (lines
  325-326), it has a NewsID column, and every NewsID of that column occurs in the
  archive. Then the merge, with its final pass, returns the archive itself, so the
  number of rows is that of the archive.
\<close>

lemma merge_known_batch_keeps_archive:
  assumes "unique_keys A"
    and "load_existing H B = Inr B'"
    and "''NewsID'' \<in> set (columns B')"
    and "\<forall>r \<in> set (rows B'). r ''NewsID'' \<in> set (map (\<lambda>r. r ''NewsID'') (rows A))"
  shows "\<exists>F. merge H (Some A) B = Inr F \<and> F = A \<and> length (rows F) = length (rows A)"
  using merge_known[OF assms] by simp

lemma merge_known_batch_keeps_archive_example:
  "unique_keys
     \<lparr>columns = [''Ticker'', ''url'', ''title'', ''publishedAt'', ''NewsID'', ''ArticleKey''],
      rows = [(row_of [(''Ticker'', Str ''NVDA''), (''url'', Str ''a''), (''title'', Str ''X''),
                      (''publishedAt'', Str ''t''), (''NewsID'', Str (hexdigest (demo_digest ''NVDA|a|t'')))])
                (''ArticleKey'' := Str (hexdigest (demo_digest ''NVDA|x|t'')))]\<rparr>
   \<and> load_existing demo_digest
     \<lparr>columns = [''Ticker'', ''url'', ''title'', ''publishedAt'', ''NewsID''],
      rows = [row_of [(''Ticker'', Str ''NVDA''), (''url'', Str ''a''), (''title'', Str ''X''),
                      (''publishedAt'', Str ''t''), (''NewsID'', Str (hexdigest (demo_digest ''NVDA|a|t'')))]]\<rparr>
     = Inr \<lparr>columns = [''Ticker'', ''url'', ''title'', ''publishedAt'', ''NewsID'', ''ArticleKey''],
      rows = [(row_of [(''Ticker'', Str ''NVDA''), (''url'', Str ''a''), (''title'', Str ''X''),
                      (''publishedAt'', Str ''t''), (''NewsID'', Str (hexdigest (demo_digest ''NVDA|a|t'')))])
                (''ArticleKey'' := Str (hexdigest (demo_digest ''NVDA|x|t'')))]\<rparr>
   \<and> merge demo_digest
       (Some \<lparr>columns = [''Ticker'', ''url'', ''title'', ''publishedAt'', ''NewsID'', ''ArticleKey''],
          rows = [(row_of [(''Ticker'', Str ''NVDA''), (''url'', Str ''a''), (''title'', Str ''X''),
                      (''publishedAt'', Str ''t''), (''NewsID'', Str (hexdigest (demo_digest ''NVDA|a|t'')))])
                (''ArticleKey'' := Str (hexdigest (demo_digest ''NVDA|x|t'')))]\<rparr>)
       \<lparr>columns = [''Ticker'', ''url'', ''title'', ''publishedAt'', ''NewsID''],
        rows = [row_of [(''Ticker'', Str ''NVDA''), (''url'', Str ''a''), (''title'', Str ''X''),
                      (''publishedAt'', Str ''t''), (''NewsID'', Str (hexdigest (demo_digest ''NVDA|a|t'')))]]\<rparr>
     = Inr \<lparr>columns = [''Ticker'', ''url'', ''title'', ''publishedAt'', ''NewsID'', ''ArticleKey''],
      rows = [(row_of [(''Ticker'', Str ''NVDA''), (''url'', Str ''a''), (''title'', Str ''X''),
                      (''publishedAt'', Str ''t''), (''NewsID'', Str (hexdigest (demo_digest ''NVDA|a|t'')))])
                (''ArticleKey'' := Str (hexdigest (demo_digest ''NVDA|x|t'')))]\<rparr>"
proof -
  let ?r = "row_of [(''Ticker'', Str ''NVDA''), (''url'', Str ''a''), (''title'', Str ''X''),
                      (''publishedAt'', Str ''t''), (''NewsID'', Str (hexdigest (demo_digest ''NVDA|a|t'')))]"
  let ?B = "\<lparr>columns = [''Ticker'', ''url'', ''title'', ''publishedAt'', ''NewsID''], rows = [?r]\<rparr>"
  let ?A = "\<lparr>columns = [''Ticker'', ''url'', ''title'', ''publishedAt'', ''NewsID'', ''ArticleKey''],
      rows = [?r(''ArticleKey'' := Str (hexdigest (demo_digest ''NVDA|x|t'')))]\<rparr>"
  have u: "unique_keys ?A" by (simp add: unique_keys_def has_keys_def)
  have l: "load_existing demo_digest ?B = Inr ?A"
    by (simp add: load_existing_def ensure_news_id_def ensure_article_key_def empty_df_def
          row_article_key_def series_of_def series_get_def
          make_article_key_def setitem_def upper_NVDA strip_NVDA strip_X lower_X strip_t)
  have c: "''NewsID'' \<in> set (columns ?A)" by simp
  have k: "\<forall>r \<in> set (rows ?A). r ''NewsID'' \<in> set (map (\<lambda>r. r ''NewsID'') (rows ?A))" by simp
  from merge_known_batch_keeps_archive[OF u l c k]
  have m: "merge demo_digest (Some ?A) ?B = Inr ?A" by simp
  from u l m show ?thesis by (intro conjI)
qed

lemma merge_keyed:
  assumes uA: "unique_keys A" and hB: "has_keys B"
  shows "\<exists>F. merge H (Some A) B = Inr F \<and> unique_keys F \<and>
     map (\<lambda>r. r ''NewsID'') (rows F)
       = map (\<lambda>r. r ''NewsID'') (rows A) @
         map (\<lambda>r. r ''NewsID'')
           (keep_first (map (\<lambda>r. r ''ArticleKey'') (rows A)) (\<lambda>r. r ''ArticleKey'')
              (keep_first (map (\<lambda>r. r ''NewsID'') (rows A)) (\<lambda>r. r ''NewsID'')
                 (filter (\<lambda>r. r ''NewsID'' \<notin> set (map (\<lambda>r. r ''NewsID'') (rows A))) (rows B)))) \<and>
     map (\<lambda>r. r ''ArticleKey'') (rows F)
       = map (\<lambda>r. r ''ArticleKey'') (rows A) @
         map (\<lambda>r. r ''ArticleKey'')
           (keep_first (map (\<lambda>r. r ''ArticleKey'') (rows A)) (\<lambda>r. r ''ArticleKey'')
              (keep_first (map (\<lambda>r. r ''NewsID'') (rows A)) (\<lambda>r. r ''NewsID'')
                 (filter (\<lambda>r. r ''NewsID'' \<notin> set (map (\<lambda>r. r ''NewsID'') (rows A))) (rows B))))"
proof -
  let ?N = "filter (\<lambda>r. r ''NewsID'' \<notin> set (map (\<lambda>r. r ''NewsID'') (rows A))) (rows B)"
  let ?Y = "keep_first (map (\<lambda>r. r ''ArticleKey'') (rows A)) (\<lambda>r. r ''ArticleKey'')
              (keep_first (map (\<lambda>r. r ''NewsID'') (rows A)) (\<lambda>r. r ''NewsID'') ?N)"
  from uA have hA: "has_keys A" by (simp add: unique_keys_def)
  note a = has_keysD[OF hA] and b = has_keysD[OF hB]
  from merge_new_cases[OF a(1) b(1)] obtain n where
    mn: "merge_new A B = Inr (n, if ?N = [] then A else concat_frames [A, B\<lparr>rows := ?N\<rparr>])" by blast
  note mu = merge_unfold[OF load_existing_keyed[OF hB] load_existing_keyed[OF hA] mn]
  show ?thesis
  proof (cases "?N = []")
    case True
    then have "merge H (Some A) B = Inr A" using mu by (simp add: dedup_pass_unique[OF uA])
    with True uA show ?thesis by simp
  next
    case False
    let ?C = "concat_frames [A, B\<lparr>rows := ?N\<rparr>]"
    let ?F = "?C\<lparr>rows := map (reindex (columns A)) (rows A) @ map (reindex (columns B)) ?Y\<rparr>"
    have dp: "dedup_pass H ?C = Inr ?F"
      by (rule merge_concat_dedup[OF uA hB refl False])
    then have m: "merge H (Some A) B = Inr ?F" using mu False by simp
    have NB: "set ?N \<subseteq> set (rows B)" by auto
    have hC: "has_keys ?C"
      using a b NB by (auto simp: has_keys_def list_all_iff concat_frames_two reindex_in)
    have uF: "unique_keys ?F" by (rule dedup_pass_gives_unique[OF hC dp])
    have i: "map (\<lambda>r. r ''NewsID'') (rows ?F) = map (\<lambda>r. r ''NewsID'') (rows A) @ map (\<lambda>r. r ''NewsID'') ?Y"
      using a(1) b(1) by (simp add: reindex_in)
    have k: "map (\<lambda>r. r ''ArticleKey'') (rows ?F) = map (\<lambda>r. r ''ArticleKey'') (rows A) @ map (\<lambda>r. r ''ArticleKey'') ?Y"
      using a(2) b(2) by (simp add: reindex_in)
    from m uF i k show ?thesis by blast
  qed
qed


lemma strip_Chip: "strip ''Chip news'' = ''Chip news''" by code_simp
lemma lower_Chip: "lower ''Chip news'' = ''chip news''" by code_simp

text \<open>
  Claim C3. On a table that has its identities, the final pass keeps the first row of
  each NewsID and then, among those, the first row of each ArticleKey; keeping the
  first row of each key means that a row is removed exactly when an earlier row has
  its key. So when the archive has unique identities and the batch is one row whose
  NewsID is new (a different URL) and whose ArticleKey is held by an archive row (the
  same ticker, title and timestamp), the merge returns the rows of the archive: the
  new row is the one dropped.
\<close>

theorem dedup_newsid_then_articlekey:
  "(has_keys df \<and> \<not> empty_df df \<longrightarrow>
      dedup_pass H df =
        Inr (df\<lparr>rows := keep_first [] (\<lambda>r. r ''ArticleKey'')
                            (keep_first [] (\<lambda>r. r ''NewsID'') (rows df))\<rparr>))
   \<and> keep_first [] k [] = []
   \<and> keep_first [] k (xs @ [x]) = keep_first [] k xs @ (if k x \<in> k ` set xs then [] else [x])
   \<and> (unique_keys A \<and> has_keys B \<and> rows B = [b]
        \<and> b ''NewsID'' \<notin> set (map (\<lambda>r. r ''NewsID'') (rows A))
        \<and> b ''ArticleKey'' \<in> set (map (\<lambda>r. r ''ArticleKey'') (rows A)) \<longrightarrow>
        (\<exists>F. merge H (Some A) B = Inr F
           \<and> length (rows F) = length (rows A)
           \<and> map (\<lambda>r. r ''NewsID'') (rows F) = map (\<lambda>r. r ''NewsID'') (rows A)
           \<and> map (\<lambda>r. r ''ArticleKey'') (rows F) = map (\<lambda>r. r ''ArticleKey'') (rows A)))"
proof (intro conjI impI)
  assume "has_keys df \<and> \<not> empty_df df"
  then show "dedup_pass H df =
        Inr (df\<lparr>rows := keep_first [] (\<lambda>r. r ''ArticleKey'')
                            (keep_first [] (\<lambda>r. r ''NewsID'') (rows df))\<rparr>)"
    by (simp add: dedup_pass_keyed)
next
  show "keep_first [] k [] = []" by simp
next
  show "keep_first [] k (xs @ [x]) = keep_first [] k xs @ (if k x \<in> k ` set xs then [] else [x])"
    by (simp add: keep_first_snoc)
next
  assume h: "unique_keys A \<and> has_keys B \<and> rows B = [b]
        \<and> b ''NewsID'' \<notin> set (map (\<lambda>r. r ''NewsID'') (rows A))
        \<and> b ''ArticleKey'' \<in> set (map (\<lambda>r. r ''ArticleKey'') (rows A))"
  then have uA: "unique_keys A" and hB: "has_keys B" and rB: "rows B = [b]"
    and fresh: "b ''NewsID'' \<notin> set (map (\<lambda>r. r ''NewsID'') (rows A))"
    and coll: "b ''ArticleKey'' \<in> set (map (\<lambda>r. r ''ArticleKey'') (rows A))" by auto
  have y: "keep_first (map (\<lambda>r. r ''ArticleKey'') (rows A)) (\<lambda>r. r ''ArticleKey'')
              (keep_first (map (\<lambda>r. r ''NewsID'') (rows A)) (\<lambda>r. r ''NewsID'')
                 (filter (\<lambda>r. r ''NewsID'' \<notin> set (map (\<lambda>r. r ''NewsID'') (rows A))) (rows B))) = []"
    using fresh coll by (simp add: rB)
  from merge_keyed[OF uA hB, of H] obtain F where
    m: "merge H (Some A) B = Inr F" and
    i: "map (\<lambda>r. r ''NewsID'') (rows F) = map (\<lambda>r. r ''NewsID'') (rows A)" and
    k: "map (\<lambda>r. r ''ArticleKey'') (rows F) = map (\<lambda>r. r ''ArticleKey'') (rows A)"
    unfolding y by auto
  from i have "length (rows F) = length (rows A)" by (rule map_eq_imp_length_eq)
  with m i k show "\<exists>F. merge H (Some A) B = Inr F
           \<and> length (rows F) = length (rows A)
           \<and> map (\<lambda>r. r ''NewsID'') (rows F) = map (\<lambda>r. r ''NewsID'') (rows A)
           \<and> map (\<lambda>r. r ''ArticleKey'') (rows F) = map (\<lambda>r. r ''ArticleKey'') (rows A)" by blast
qed

theorem dedup_newsid_then_articlekey_witness:
  "unique_keys
     \<lparr>columns = [''Ticker'', ''url'', ''title'', ''publishedAt'', ''NewsID'', ''ArticleKey''],
      rows = [row_of [(''Ticker'', Str ''NVDA''), (''url'', Str ''a''), (''title'', Str ''Chip news''),
                      (''publishedAt'', Str ''t1''),
                      (''NewsID'', Str (hexdigest (demo_digest ''NVDA|a|t1''))),
                      (''ArticleKey'', Str (hexdigest (demo_digest ''NVDA|chip news|t1'')))]]\<rparr>
   \<and> has_keys
     \<lparr>columns = [''Ticker'', ''url'', ''title'', ''publishedAt'', ''NewsID'', ''ArticleKey''],
      rows = [row_of [(''Ticker'', Str ''NVDA''), (''url'', Str ''b''), (''title'', Str ''Chip news''),
                      (''publishedAt'', Str ''t1''),
                      (''NewsID'', Str (hexdigest (demo_digest ''NVDA|b|t1''))),
                      (''ArticleKey'', Str (hexdigest (demo_digest ''NVDA|chip news|t1'')))]]\<rparr>
   \<and> Str (hexdigest (demo_digest ''NVDA|b|t1'')) \<noteq> Str (hexdigest (demo_digest ''NVDA|a|t1''))
   \<and> make_news_id demo_digest (Str ''NVDA'') (Str ''b'') (Str ''t1'')
        = Inr (hexdigest (demo_digest ''NVDA|b|t1''))
   \<and> make_article_key demo_digest (Str ''NVDA'') (Str ''Chip news'') (Str ''t1'')
        = Inr (hexdigest (demo_digest ''NVDA|chip news|t1''))
   \<and> (\<exists>F. merge demo_digest
       (Some \<lparr>columns = [''Ticker'', ''url'', ''title'', ''publishedAt'', ''NewsID'', ''ArticleKey''],
          rows = [row_of [(''Ticker'', Str ''NVDA''), (''url'', Str ''a''), (''title'', Str ''Chip news''),
                      (''publishedAt'', Str ''t1''),
                      (''NewsID'', Str (hexdigest (demo_digest ''NVDA|a|t1''))),
                      (''ArticleKey'', Str (hexdigest (demo_digest ''NVDA|chip news|t1'')))]]\<rparr>)
       \<lparr>columns = [''Ticker'', ''url'', ''title'', ''publishedAt'', ''NewsID'', ''ArticleKey''],
        rows = [row_of [(''Ticker'', Str ''NVDA''), (''url'', Str ''b''), (''title'', Str ''Chip news''),
                      (''publishedAt'', Str ''t1''),
                      (''NewsID'', Str (hexdigest (demo_digest ''NVDA|b|t1''))),
                      (''ArticleKey'', Str (hexdigest (demo_digest ''NVDA|chip news|t1'')))]]\<rparr>
       = Inr F
      \<and> length (rows F) = 1
      \<and> map (\<lambda>r. r ''NewsID'') (rows F) = [Str (hexdigest (demo_digest ''NVDA|a|t1''))])
   \<and> dedup_pass demo_digest
       \<lparr>columns = [''Ticker'', ''url'', ''title'', ''publishedAt'', ''NewsID'', ''ArticleKey''],
        rows = [row_of [(''Ticker'', Str ''NVDA''), (''url'', Str ''a''), (''title'', Str ''Chip news''),
                      (''publishedAt'', Str ''t1''),
                      (''NewsID'', Str (hexdigest (demo_digest ''NVDA|a|t1''))),
                      (''ArticleKey'', Str (hexdigest (demo_digest ''NVDA|chip news|t1'')))]]\<rparr>
     = Inr \<lparr>columns = [''Ticker'', ''url'', ''title'', ''publishedAt'', ''NewsID'', ''ArticleKey''],
        rows = [row_of [(''Ticker'', Str ''NVDA''), (''url'', Str ''a''), (''title'', Str ''Chip news''),
                      (''publishedAt'', Str ''t1''),
                      (''NewsID'', Str (hexdigest (demo_digest ''NVDA|a|t1''))),
                      (''ArticleKey'', Str (hexdigest (demo_digest ''NVDA|chip news|t1'')))]]\<rparr>"
proof -
  let ?cs = "[''Ticker'', ''url'', ''title'', ''publishedAt'', ''NewsID'', ''ArticleKey'']"
  let ?a = "row_of [(''Ticker'', Str ''NVDA''), (''url'', Str ''a''), (''title'', Str ''Chip news''),
                      (''publishedAt'', Str ''t1''),
                      (''NewsID'', Str (hexdigest (demo_digest ''NVDA|a|t1''))),
                      (''ArticleKey'', Str (hexdigest (demo_digest ''NVDA|chip news|t1'')))]"
  let ?b = "row_of [(''Ticker'', Str ''NVDA''), (''url'', Str ''b''), (''title'', Str ''Chip news''),
                      (''publishedAt'', Str ''t1''),
                      (''NewsID'', Str (hexdigest (demo_digest ''NVDA|b|t1''))),
                      (''ArticleKey'', Str (hexdigest (demo_digest ''NVDA|chip news|t1'')))]"
  let ?A = "\<lparr>columns = ?cs, rows = [?a]\<rparr>"
  let ?B = "\<lparr>columns = ?cs, rows = [?b]\<rparr>"
  have u: "unique_keys ?A" by (simp add: unique_keys_def has_keys_def)
  have h: "has_keys ?B" by (simp add: has_keys_def)
  have hA: "has_keys ?A" by (simp add: has_keys_def)
  have ne: "\<not> empty_df ?A" by (simp add: empty_df_def)
  have d: "Str (hexdigest (demo_digest ''NVDA|b|t1'')) \<noteq> Str (hexdigest (demo_digest ''NVDA|a|t1''))"
    using demo_ab by simp
  have n: "make_news_id demo_digest (Str ''NVDA'') (Str ''b'') (Str ''t1'')
        = Inr (hexdigest (demo_digest ''NVDA|b|t1''))"
    by (simp add: make_news_id_def upper_NVDA strip_b strip_t1)
  have k: "make_article_key demo_digest (Str ''NVDA'') (Str ''Chip news'') (Str ''t1'')
        = Inr (hexdigest (demo_digest ''NVDA|chip news|t1''))"
    by (simp add: make_article_key_def upper_NVDA strip_NVDA strip_Chip lower_Chip strip_t1)
  have fresh: "?b ''NewsID'' \<notin> set (map (\<lambda>r. r ''NewsID'') (rows ?A))" using d by simp
  have coll: "?b ''ArticleKey'' \<in> set (map (\<lambda>r. r ''ArticleKey'') (rows ?A))" by simp
  have rB: "rows ?B = [?b]" by simp
  note t = dedup_newsid_then_articlekey[of ?A demo_digest "\<lambda>r. r ''NewsID''" "[]" ?a ?A ?B ?b]
  from t u h rB fresh coll obtain F where
    m: "merge demo_digest (Some ?A) ?B = Inr F" and l: "length (rows F) = length (rows ?A)"
    and i: "map (\<lambda>r. r ''NewsID'') (rows F) = map (\<lambda>r. r ''NewsID'') (rows ?A)" by blast
  have e: "\<exists>F. merge demo_digest (Some ?A) ?B = Inr F \<and> length (rows F) = 1
      \<and> map (\<lambda>r. r ''NewsID'') (rows F) = [Str (hexdigest (demo_digest ''NVDA|a|t1''))]"
    using m l i by simp
  from t hA ne have "dedup_pass demo_digest ?A =
        Inr (?A\<lparr>rows := keep_first [] (\<lambda>r. r ''ArticleKey'')
                            (keep_first [] (\<lambda>r. r ''NewsID'') (rows ?A))\<rparr>)" by blast
  then have dp: "dedup_pass demo_digest ?A = Inr ?A" by simp
  from u h d n k e dp show ?thesis by (intro conjI)
qed


section \<open>The whole run\<close>

lemma zip_upd_col:
  "length vs = length rs \<Longrightarrow> map (\<lambda>r. r c) (map (\<lambda>(r, v). r(c := v)) (zip rs vs)) = vs"
  by (induction vs rs rule: list_induct2) auto

lemma zip_upd_other:
  "length vs = length rs \<Longrightarrow> c' \<noteq> c \<Longrightarrow>
   map (\<lambda>r. r c') (map (\<lambda>(r, v). r(c := v)) (zip rs vs)) = map (\<lambda>r. r c') rs"
  by (induction vs rs rule: list_induct2) auto

lemma setitem_col:
  "length vs = length (rows df) \<Longrightarrow> map (\<lambda>r. r c) (rows (setitem df c vs)) = vs"
  by (simp add: setitem_def zip_upd_col del: map_map)

lemma setitem_other:
  "length vs = length (rows df) \<Longrightarrow> c' \<noteq> c \<Longrightarrow>
   map (\<lambda>r. r c') (rows (setitem df c vs)) = map (\<lambda>r. r c') (rows df)"
  by (simp add: setitem_def zip_upd_other del: map_map)

lemma ensure_article_key_result:
  assumes ok: "ensure_article_key H df = Inr d" and ne: "\<not> empty_df df"
  shows "\<not> empty_df d" "''ArticleKey'' \<in> set (columns d)"
    "set (columns df) \<subseteq> set (columns d)"
    "\<And>r. r \<in> set (rows d) \<Longrightarrow> \<not> isna (r ''ArticleKey'')"
    "\<And>c. c \<noteq> ''ArticleKey'' \<Longrightarrow> map (\<lambda>r. r c) (rows d) = map (\<lambda>r. r c) (rows df)"
proof -
  have "\<not> empty_df d \<and> ''ArticleKey'' \<in> set (columns d) \<and> set (columns df) \<subseteq> set (columns d)
      \<and> (\<forall>r \<in> set (rows d). \<not> isna (r ''ArticleKey''))
      \<and> (\<forall>c. c \<noteq> ''ArticleKey'' \<longrightarrow> map (\<lambda>r. r c) (rows d) = map (\<lambda>r. r c) (rows df))"
  proof (cases "''ArticleKey'' \<in> set (columns df) \<and> (\<forall>r \<in> set (rows df). \<not> isna (r ''ArticleKey''))")
    case True
    with ok ne have "d = df" by (auto simp: ensure_article_key_def)
    with True ne show ?thesis by simp
  next
    case False
    with ok ne obtain ks where ks: "apply_rows (row_article_key H (columns df)) (rows df) = Inr ks"
      and d: "d = setitem df ''ArticleKey'' (map Str ks)"
      by (auto simp: ensure_article_key_def split: sum.splits)
    from apply_rows_Inr[OF ks] have l: "length (map Str ks) = length (rows df)" by simp
    have col: "map (\<lambda>r. r ''ArticleKey'') (rows d) = map Str ks"
      unfolding d using l by (rule setitem_col)
    have nn: "\<forall>r \<in> set (rows d). \<not> isna (r ''ArticleKey'')"
    proof
      fix r assume "r \<in> set (rows d)"
      then have "r ''ArticleKey'' \<in> set (map (\<lambda>r. r ''ArticleKey'') (rows d))" by simp
      then show "\<not> isna (r ''ArticleKey'')" unfolding col by auto
    qed
    have oth: "\<forall>c. c \<noteq> ''ArticleKey'' \<longrightarrow> map (\<lambda>r. r c) (rows d) = map (\<lambda>r. r c) (rows df)"
      unfolding d using l by (simp add: setitem_other)
    have len: "length (rows d) = length (rows df)" unfolding d using l by (simp add: setitem_def)
    have "\<not> empty_df d" using ne len by (auto simp: empty_df_def d setitem_def)
    moreover have "''ArticleKey'' \<in> set (columns d)" "set (columns df) \<subseteq> set (columns d)"
      by (auto simp: d setitem_def)
    ultimately show ?thesis using nn oth by simp
  qed
  then show "\<not> empty_df d" "''ArticleKey'' \<in> set (columns d)"
    "set (columns df) \<subseteq> set (columns d)"
    "\<And>r. r \<in> set (rows d) \<Longrightarrow> \<not> isna (r ''ArticleKey'')"
    "\<And>c. c \<noteq> ''ArticleKey'' \<Longrightarrow> map (\<lambda>r. r c) (rows d) = map (\<lambda>r. r c) (rows df)"
    by auto
qed

lemma distinct_dup_key:
  "distinct (map (\<lambda>r. dup_key (r c)) xs) \<Longrightarrow> distinct (map (\<lambda>r. r c) xs)"
  by (induction xs) auto

lemma dedup_pass_cases:
  assumes ok: "dedup_pass H df = Inr d"
  shows "(empty_df df \<and> d = df) \<or>
         (\<not> empty_df d \<and> ''NewsID'' \<in> set (columns d) \<and> ''ArticleKey'' \<in> set (columns d)
          \<and> distinct (map (\<lambda>r. r ''NewsID'') (rows d))
          \<and> distinct (map (\<lambda>r. r ''ArticleKey'') (rows d)))"
proof (cases "empty_df df")
  case True
  with ok show ?thesis
    by (simp add: dedup_pass_def ensure_article_key_def drop_duplicates_def)
next
  case False
  from ok obtain d0 where e: "ensure_article_key H df = Inr d0"
    by (auto simp: dedup_pass_def split: sum.splits)
  note p = ensure_article_key_result[OF e False]
  let ?k1 = "keep_first [] (\<lambda>r. dup_key (r ''NewsID'')) (rows d0)"
  let ?k2 = "keep_first [] (\<lambda>r. dup_key (r ''ArticleKey'')) ?k1"
  from p(1) have r0: "rows d0 \<noteq> []" and c0: "columns d0 \<noteq> []" by (auto simp: empty_df_def)
  have k1: "?k1 \<noteq> []" using r0 by (rule keep_first_nonempty)
  then have k2: "?k2 \<noteq> []" by (rule keep_first_nonempty)
  from ok e p(1) have i: "''NewsID'' \<in> set (columns d0)"
    by (auto simp: dedup_pass_def drop_duplicates_def split: if_splits)
  from ok e p(1,2) i k1 c0 have d: "d = d0\<lparr>rows := ?k2\<rparr>"
    by (simp add: dedup_pass_def drop_duplicates_def empty_df_def)
  have "distinct (map (\<lambda>r. dup_key (r ''NewsID'')) ?k2)"
    by (intro keep_first_preserves_distinct keep_first_distinct)
  then have d1: "distinct (map (\<lambda>r. r ''NewsID'') ?k2)" by (rule distinct_dup_key)
  have "distinct (map (\<lambda>r. dup_key (r ''ArticleKey'')) ?k2)" by (rule keep_first_distinct)
  then have d2: "distinct (map (\<lambda>r. r ''ArticleKey'') ?k2)" by (rule distinct_dup_key)
  have "\<not> empty_df d" using k2 c0 by (simp add: d empty_df_def)
  with i p(2) d1 d2 show ?thesis by (simp add: d)
qed

lemma ensure_sentiment_columns:
  "ensure_sentiment sia df = Inr (d, calls) \<Longrightarrow> set (columns df) \<subseteq> set (columns d)"
  by (auto simp: ensure_sentiment_def Let_def setitem_def split: if_splits list.splits)

lemma ensure_sentiment_keeps_column:
  assumes ok: "ensure_sentiment sia df = Inr (d, calls)"
    and c: "c \<noteq> ''sentiment_score''" "c \<noteq> ''sentiment_label''"
  shows "map (\<lambda>r. r c) (rows d) = map (\<lambda>r. r c) (rows df)"
proof (cases "empty_df df")
  case True
  with ok show ?thesis by (simp add: ensure_sentiment_empty)
next
  case False
  show ?thesis unfolding ensure_sentiment_nonempty(1)[OF False ok] using c by (simp add: comp_def)
qed

lemma finish_distinct:
  assumes ok: "finish H sia n F = Inr res" and s: "saved res = Some d"
  shows "(''NewsID'' \<in> set (columns d) \<longrightarrow> distinct (map (\<lambda>r. r ''NewsID'') (rows d)))
       \<and> (''ArticleKey'' \<in> set (columns d) \<longrightarrow> distinct (map (\<lambda>r. r ''ArticleKey'') (rows d)))
       \<and> (rows d \<noteq> [] \<and> columns d \<noteq> [] \<longrightarrow>
            ''NewsID'' \<in> set (columns d) \<and> ''ArticleKey'' \<in> set (columns d))"
proof -
  from ok s obtain D calls where dp: "dedup_pass H F = Inr D" and es: "ensure_sentiment sia D = Inr (d, calls)"
    by (auto simp: finish_def split: sum.splits)
  from dedup_pass_cases[OF dp] show ?thesis
  proof
    assume "empty_df F \<and> D = F"
    then have e: "empty_df D" by simp
    with es have "d = D" by (simp add: ensure_sentiment_empty)
    with e show ?thesis by (auto simp: empty_df_def)
  next
    assume a: "\<not> empty_df D \<and> ''NewsID'' \<in> set (columns D) \<and> ''ArticleKey'' \<in> set (columns D)
          \<and> distinct (map (\<lambda>r. r ''NewsID'') (rows D))
          \<and> distinct (map (\<lambda>r. r ''ArticleKey'') (rows D))"
    have i: "map (\<lambda>r. r ''NewsID'') (rows d) = map (\<lambda>r. r ''NewsID'') (rows D)"
      by (rule ensure_sentiment_keeps_column[OF es]) simp_all
    have k: "map (\<lambda>r. r ''ArticleKey'') (rows d) = map (\<lambda>r. r ''ArticleKey'') (rows D)"
      by (rule ensure_sentiment_keeps_column[OF es]) simp_all
    from ensure_sentiment_columns[OF es] a have "''NewsID'' \<in> set (columns d)" "''ArticleKey'' \<in> set (columns d)"
      by auto
    with a show ?thesis by (simp add: i k)
  qed
qed

text \<open>
  Claim C4. Whenever a run writes the archive, no two rows of the table written share
  a NewsID and no two share an ArticleKey; a table written with rows has both columns.
\<close>

theorem persisted_archive_has_unique_keys:
  assumes "main H sia fetch tickers db = Inr res" and "saved res = Some d"
  shows "(''NewsID'' \<in> set (columns d) \<longrightarrow> distinct (map (\<lambda>r. r ''NewsID'') (rows d)))
       \<and> (''ArticleKey'' \<in> set (columns d) \<longrightarrow> distinct (map (\<lambda>r. r ''ArticleKey'') (rows d)))
       \<and> (rows d \<noteq> [] \<and> columns d \<noteq> [] \<longrightarrow>
            ''NewsID'' \<in> set (columns d) \<and> ''ArticleKey'' \<in> set (columns d))"
proof -
  from assms obtain n F where "finish H sia n F = Inr res"
    by (auto simp: main_def split: sum.splits if_splits option.splits)
  from finish_distinct[OF this assms(2)] show ?thesis .
qed


theorem persisted_archive_has_unique_keys_witness:
  "main demo_digest (\<lambda>_. 0) (\<lambda>_. Fetched []) []
     (Some \<lparr>columns = [''title'', ''description'', ''content_snippet'', ''NewsID'', ''ArticleKey'',
                        ''sentiment_score'', ''sentiment_label''],
            rows = [row_of [(''title'', Str ''X''), (''NewsID'', Str ''n1''), (''ArticleKey'', Str ''k1''),
                            (''sentiment_score'', Num 0), (''sentiment_label'', Str ''neutral'')],
                    row_of [(''title'', Str ''Y''), (''NewsID'', Str ''n1''), (''ArticleKey'', Str ''k2''),
                            (''sentiment_score'', Num 0), (''sentiment_label'', Str ''neutral'')]]\<rparr>)
   = Inr \<lparr>notices = [UsingExistingOnly],
          saved = Some \<lparr>columns = [''title'', ''description'', ''content_snippet'', ''NewsID'', ''ArticleKey'',
                        ''sentiment_score'', ''sentiment_label''],
            rows = [row_of [(''title'', Str ''X''), (''NewsID'', Str ''n1''), (''ArticleKey'', Str ''k1''),
                            (''sentiment_score'', Num 0), (''sentiment_label'', Str ''neutral'')]]\<rparr>,
          scored = []\<rparr>
   \<and> distinct (map (\<lambda>r. r ''NewsID'')
        (rows \<lparr>columns = [''title'', ''description'', ''content_snippet'', ''NewsID'', ''ArticleKey'',
                        ''sentiment_score'', ''sentiment_label''],
            rows = [row_of [(''title'', Str ''X''), (''NewsID'', Str ''n1''), (''ArticleKey'', Str ''k1''),
                            (''sentiment_score'', Num 0), (''sentiment_label'', Str ''neutral'')]]\<rparr>))
   \<and> distinct (map (\<lambda>r. r ''ArticleKey'')
        (rows \<lparr>columns = [''title'', ''description'', ''content_snippet'', ''NewsID'', ''ArticleKey'',
                        ''sentiment_score'', ''sentiment_label''],
            rows = [row_of [(''title'', Str ''X''), (''NewsID'', Str ''n1''), (''ArticleKey'', Str ''k1''),
                            (''sentiment_score'', Num 0), (''sentiment_label'', Str ''neutral'')]]\<rparr>))"
proof -
  let ?cs = "[''title'', ''description'', ''content_snippet'', ''NewsID'', ''ArticleKey'',
                        ''sentiment_score'', ''sentiment_label'']"
  let ?r1 = "row_of [(''title'', Str ''X''), (''NewsID'', Str ''n1''), (''ArticleKey'', Str ''k1''),
                            (''sentiment_score'', Num 0), (''sentiment_label'', Str ''neutral'')]"
  let ?r2 = "row_of [(''title'', Str ''Y''), (''NewsID'', Str ''n1''), (''ArticleKey'', Str ''k2''),
                            (''sentiment_score'', Num 0), (''sentiment_label'', Str ''neutral'')]"
  let ?A = "\<lparr>columns = ?cs, rows = [?r1, ?r2]\<rparr>"
  let ?D = "\<lparr>columns = ?cs, rows = [?r1]\<rparr>"
  let ?res = "\<lparr>notices = [UsingExistingOnly], saved = Some ?D, scored = []\<rparr>"
  have hA: "has_keys ?A" by (simp add: has_keys_def)
  have dp: "dedup_pass demo_digest ?A = Inr ?D"
    by (simp add: dedup_pass_keyed[OF hA] empty_df_def)
  have es: "ensure_sentiment (\<lambda>_. 0) ?D = Inr (?D, [])"
    by (simp add: ensure_sentiment_def empty_df_def Let_def)
  have ev: "main demo_digest (\<lambda>_. 0) (\<lambda>_. Fetched []) [] (Some ?A) = Inr ?res"
    by (simp add: main_def load_existing_keyed[OF hA] finish_def dp es)
  have sv: "saved ?res = Some ?D" by simp
  have c1: "''NewsID'' \<in> set (columns ?D)" by simp
  have c2: "''ArticleKey'' \<in> set (columns ?D)" by simp
  note t = persisted_archive_has_unique_keys[OF ev sv]
  note d1 = t[THEN conjunct1, THEN mp, OF c1]
  note d2 = t[THEN conjunct2, THEN conjunct1, THEN mp, OF c2]
  from ev d1 d2 show ?thesis by (intro conjI)
qed

lemma main_nothing_to_do:
  "fetch_loop H fetch tickers False [] = Inr [] \<Longrightarrow>
   main H sia fetch tickers None = Inr \<lparr>notices = [NothingToDo], saved = None, scored = []\<rparr>"
  by (simp add: main_def)

text \<open>
  Claim C9. The notice "nothing to do" is given when \<open>all_dfs\<close> is empty, that is when no
  ticker's fetch returned (\<open>main_nothing_to_do\<close>). A fetch that returns no article
  still appends its empty frame to \<open>all_dfs\<close>: with the tickers of the source, every
  fetch returning no article and no archive file, the run takes the branch "creating
  news_db.csv from scratch" and writes a table without rows and without columns.
\<close>

theorem empty_batch_without_archive_writes_file:
  "main H sia (\<lambda>_. Fetched []) [''NVDA'', ''MSFT'', ''AAPL'', ''MELI'', ''GOOGL'', ''YPF''] None
     = Inr \<lparr>notices = [CreatingFromScratch], saved = Some \<lparr>columns = [], rows = []\<rparr>, scored = []\<rparr>"
  by (simp add: main_def fetch_news_for_ticker_none concat_frames_def merge_batch_def
        load_existing_def ensure_news_id_def ensure_article_key_def empty_df_def finish_def
        dedup_pass_def drop_duplicates_def ensure_sentiment_def)

lemma empty_batch_with_archive_raises:
  assumes "has_keys A"
  shows "main H sia (\<lambda>_. Fetched []) [''NVDA'', ''MSFT'', ''AAPL'', ''MELI'', ''GOOGL'', ''YPF''] (Some A)
     = Inl (KeyError ''NewsID'')"
proof -
  let ?e = "\<lparr>columns = [], rows = []\<rparr>"
  have fl: "fetch_loop H (\<lambda>_. Fetched []) [''NVDA'', ''MSFT'', ''AAPL'', ''MELI'', ''GOOGL'', ''YPF''] False []
      = Inr [?e, ?e, ?e, ?e, ?e, ?e]"
    by (simp add: fetch_news_for_ticker_none)
  have cc: "concat_frames [?e, ?e, ?e, ?e, ?e, ?e] = ?e" by (simp add: concat_frames_def)
  have le: "load_existing H ?e = Inr ?e"
    by (simp add: load_existing_def ensure_news_id_def ensure_article_key_def empty_df_def)
  have mn: "merge_new A ?e = Inl (KeyError ''NewsID'')"
    using has_keysD(1)[OF assms] by (simp add: merge_new_def getitem_def)
  show ?thesis
    unfolding main_def fl
    by (simp add: cc merge_batch_def le load_existing_keyed[OF assms] mn)
qed

text \<open>
  Claim C1. The claim fails for the batch without rows that the run builds when every
  fetch returns no article: \<open>pd.concat\<close> of frames without columns has no NewsID
  column. Every row of that batch (there is none) has its NewsID in the archive, the
  archive below has unique identity columns, and yet the merge raises KeyError at
  \<open>new_df["NewsID"]\<close> (line 337): no final archive is produced. This is the defect of
  claim C9, the empty frames appended to \<open>all_dfs\<close>. For a batch that has a NewsID
  column the claim holds (\<open>merge_known_batch_keeps_archive\<close>).
\<close>

theorem known_empty_batch_raises_key_error:
  "unique_keys
     \<lparr>columns = [''Ticker'', ''url'', ''title'', ''publishedAt'', ''NewsID'', ''ArticleKey''],
      rows = [row_of [(''Ticker'', Str ''NVDA''), (''url'', Str ''a''), (''title'', Str ''X''),
                      (''publishedAt'', Str ''t''), (''NewsID'', Str ''n1''),
                      (''ArticleKey'', Str ''k1'')]]\<rparr>
   \<and> concat_frames (replicate 6 \<lparr>columns = [], rows = []\<rparr>) = \<lparr>columns = [], rows = []\<rparr>
   \<and> list_all (\<lambda>r. r ''NewsID'' \<in> {Str ''n1''}) (rows \<lparr>columns = [], rows = []\<rparr>)
   \<and> merge H
       (Some \<lparr>columns = [''Ticker'', ''url'', ''title'', ''publishedAt'', ''NewsID'', ''ArticleKey''],
          rows = [row_of [(''Ticker'', Str ''NVDA''), (''url'', Str ''a''), (''title'', Str ''X''),
                          (''publishedAt'', Str ''t''), (''NewsID'', Str ''n1''),
                          (''ArticleKey'', Str ''k1'')]]\<rparr>)
       \<lparr>columns = [], rows = []\<rparr>
     = Inl (KeyError ''NewsID'')
   \<and> main H sia (\<lambda>_. Fetched []) [''NVDA'', ''MSFT'', ''AAPL'', ''MELI'', ''GOOGL'', ''YPF'']
       (Some \<lparr>columns = [''Ticker'', ''url'', ''title'', ''publishedAt'', ''NewsID'', ''ArticleKey''],
          rows = [row_of [(''Ticker'', Str ''NVDA''), (''url'', Str ''a''), (''title'', Str ''X''),
                          (''publishedAt'', Str ''t''), (''NewsID'', Str ''n1''),
                          (''ArticleKey'', Str ''k1'')]]\<rparr>)
     = Inl (KeyError ''NewsID'')"
proof -
  let ?A = "\<lparr>columns = [''Ticker'', ''url'', ''title'', ''publishedAt'', ''NewsID'', ''ArticleKey''],
      rows = [row_of [(''Ticker'', Str ''NVDA''), (''url'', Str ''a''), (''title'', Str ''X''),
                      (''publishedAt'', Str ''t''), (''NewsID'', Str ''n1''),
                      (''ArticleKey'', Str ''k1'')]]\<rparr>"
  let ?e = "\<lparr>columns = [], rows = []\<rparr>"
  have u: "unique_keys ?A" by (simp add: unique_keys_def has_keys_def)
  then have h: "has_keys ?A" by (simp add: unique_keys_def)
  have c: "concat_frames (replicate 6 ?e) = ?e"
    by (simp add: concat_frames_def eval_nat_numeral)
  have k: "list_all (\<lambda>r. r ''NewsID'' \<in> {Str ''n1''}) (rows ?e)" by simp
  have le: "load_existing H ?e = Inr ?e"
    by (simp add: load_existing_def ensure_news_id_def ensure_article_key_def empty_df_def)
  have mn: "merge_new ?A ?e = Inl (KeyError ''NewsID'')"
    by (simp add: merge_new_def getitem_def)
  have m: "merge H (Some ?A) ?e = Inl (KeyError ''NewsID'')"
    by (simp add: merge_def merge_batch_def le load_existing_keyed[OF h] mn)
  note r = empty_batch_with_archive_raises[OF h, of H sia]
  from u c k m r show ?thesis by (intro conjI)
qed


section \<open>Merging the same batch twice\<close>

lemma ensure_news_id_result:
  assumes ok: "ensure_news_id H df = Inr d" and ne: "\<not> empty_df df"
  shows "\<not> empty_df d" "''NewsID'' \<in> set (columns d)"
    "\<And>r. r \<in> set (rows d) \<Longrightarrow> \<not> isna (r ''NewsID'')"
proof -
  have "\<not> empty_df d \<and> ''NewsID'' \<in> set (columns d) \<and> (\<forall>r \<in> set (rows d). \<not> isna (r ''NewsID''))"
  proof (cases "''NewsID'' \<in> set (columns df) \<and> (\<forall>r \<in> set (rows df). \<not> isna (r ''NewsID''))")
    case True
    with ok ne have "d = df" by (auto simp: ensure_news_id_def)
    with True ne show ?thesis by simp
  next
    case False
    with ok ne obtain ids where ids: "apply_rows (row_news_id H (columns df)) (rows df) = Inr ids"
      and d: "d = setitem df ''NewsID'' (map Str ids)"
      by (auto simp: ensure_news_id_def split: sum.splits)
    from apply_rows_Inr[OF ids] have l: "length (map Str ids) = length (rows df)" by simp
    have col: "map (\<lambda>r. r ''NewsID'') (rows d) = map Str ids"
      unfolding d using l by (rule setitem_col)
    have nn: "\<forall>r \<in> set (rows d). \<not> isna (r ''NewsID'')"
    proof
      fix r assume "r \<in> set (rows d)"
      then have "r ''NewsID'' \<in> set (map (\<lambda>r. r ''NewsID'') (rows d))" by simp
      then show "\<not> isna (r ''NewsID'')" unfolding col by auto
    qed
    have len: "length (rows d) = length (rows df)" unfolding d using l by (simp add: setitem_def)
    have "\<not> empty_df d" using ne len by (auto simp: empty_df_def d setitem_def)
    moreover have "''NewsID'' \<in> set (columns d)" by (auto simp: d setitem_def)
    ultimately show ?thesis using nn by simp
  qed
  then show "\<not> empty_df d" "''NewsID'' \<in> set (columns d)"
    "\<And>r. r \<in> set (rows d) \<Longrightarrow> \<not> isna (r ''NewsID'')" by auto
qed

lemma load_existing_result:
  assumes ok: "load_existing H B = Inr B'" and ne: "\<not> empty_df B'"
  shows "has_keys B'"
proof -
  from ok obtain b1 where e1: "ensure_news_id H B = Inr b1" and e2: "ensure_article_key H b1 = Inr B'"
    by (auto simp: load_existing_def split: sum.splits)
  have neB: "\<not> empty_df B"
  proof
    assume e: "empty_df B"
    with e1 have "b1 = B" by (simp add: ensure_news_id_def)
    with e2 e have "B' = B" by (simp add: ensure_article_key_def)
    with e ne show False by simp
  qed
  note p = ensure_news_id_result[OF e1 neB]
  note q = ensure_article_key_result[OF e2 p(1)]
  have i: "''NewsID'' \<in> set (columns B')" using p(2) q(3) by auto
  have m: "map (\<lambda>r. r ''NewsID'') (rows B') = map (\<lambda>r. r ''NewsID'') (rows b1)"
    by (rule q(5)) simp
  have nn: "\<forall>r \<in> set (rows B'). \<not> isna (r ''NewsID'')"
  proof
    fix r assume "r \<in> set (rows B')"
    then have "r ''NewsID'' \<in> set (map (\<lambda>r. r ''NewsID'') (rows B'))" by simp
    then have "r ''NewsID'' \<in> set (map (\<lambda>r. r ''NewsID'') (rows b1))" unfolding m .
    then show "\<not> isna (r ''NewsID'')" using p(3) by auto
  qed
  show ?thesis using i q(2) nn q(4) by (simp add: has_keys_def list_all_iff)
qed

lemma merge_via_loaded:
  "load_existing H B = Inr B' \<Longrightarrow> has_keys B' \<Longrightarrow> merge H db B = merge H db B'"
  by (simp add: merge_def merge_batch_def load_existing_keyed)

lemma find_filter_key:
  "P (k z) \<Longrightarrow> find (\<lambda>y. k y = k z) (filter (\<lambda>x. P (k x)) xs) = find (\<lambda>y. k y = k z) xs"
  by (induction xs) auto

lemma keep_first_mem:
  "find (\<lambda>y. k y = k z) xs = Some z \<Longrightarrow> k z \<notin> set seen \<Longrightarrow> z \<in> set (keep_first seen k xs)"
proof (induction xs arbitrary: seen)
  case Nil then show ?case by simp
next
  case (Cons x xs)
  show ?case
  proof (cases "k x = k z")
    case True
    with Cons.prems show ?thesis by auto
  next
    case False
    with Cons.prems have f: "find (\<lambda>y. k y = k z) xs = Some z" by simp
    have "k z \<notin> set (k x # seen)" using False Cons.prems(2) by auto
    from Cons.IH[OF f this] Cons.IH[OF f Cons.prems(2)] show ?thesis by simp
  qed
qed

lemma second_merge_adds_nothing:
  assumes ids: "ids1 = idsA @ map (\<lambda>r. r ''NewsID'') Y"
    and aks: "aks1 = aksA @ map (\<lambda>r. r ''ArticleKey'') Y"
    and Y: "Y = keep_first aksA (\<lambda>r. r ''ArticleKey'')
                  (keep_first idsA (\<lambda>r. r ''NewsID'') (filter (\<lambda>r. r ''NewsID'' \<notin> set idsA) (rs :: row list)))"
  shows "keep_first aks1 (\<lambda>r. r ''ArticleKey'')
           (keep_first ids1 (\<lambda>r. r ''NewsID'') (filter (\<lambda>r. r ''NewsID'' \<notin> set ids1) rs)) = []"
proof (rule keep_first_all_seen, rule subsetI)
  let ?ID = "\<lambda>r::row. r ''NewsID''" and ?AK = "\<lambda>r::row. r ''ArticleKey''"
  let ?N = "filter (\<lambda>r. ?ID r \<notin> set idsA) rs"
  let ?X = "keep_first idsA ?ID ?N"
  let ?N2 = "filter (\<lambda>r. ?ID r \<notin> set ids1) rs"
  fix v assume "v \<in> ?AK ` set (keep_first ids1 ?ID ?N2)"
  then obtain z where z: "z \<in> set (keep_first ids1 ?ID ?N2)" and v: "v = ?AK z" by auto
  from keep_first_find[OF z] have f2: "find (\<lambda>y. ?ID y = ?ID z) ?N2 = Some z" .
  from z keep_first_subset[of ids1 ?ID ?N2] have "z \<in> set ?N2" by blast
  then have n1: "?ID z \<notin> set ids1" by simp
  then have nA: "?ID z \<notin> set idsA" by (simp add: ids)
  have f: "find (\<lambda>y. ?ID y = ?ID z) rs = Some z"
    using f2 unfolding find_filter_key[of "\<lambda>i. i \<notin> set ids1" ?ID z rs, OF n1] .
  have "find (\<lambda>y. ?ID y = ?ID z) ?N = Some z"
    unfolding find_filter_key[of "\<lambda>i. i \<notin> set idsA" ?ID z rs, OF nA] by (rule f)
  then have "z \<in> set ?X" using nA by (rule keep_first_mem[of ?ID z ?N idsA])
  then have "?AK z \<in> ?AK ` set ?X \<union> set aksA" by blast
  also have "\<dots> = ?AK ` set (keep_first aksA ?AK ?X) \<union> set aksA"
    by (rule keep_first_keys[of ?AK aksA ?X, symmetric])
  also have "\<dots> = set aks1" unfolding aks Y by (simp add: Un_commute)
  finally show "v \<in> set aks1" unfolding v .
qed


text \<open>
  Claim C6, as the code has it. When the archive has unique identities and the merge of
  a batch returns, merging the same batch into the result returns too, with the same
  identities in the same order, so with as many rows.
\<close>

theorem merge_twice_same_size:
  assumes uA: "unique_keys A" and m1: "merge H (Some A) B = Inr F1"
  shows "\<exists>F2. merge H (Some F1) B = Inr F2
           \<and> length (rows F2) = length (rows F1)
           \<and> map (\<lambda>r. r ''NewsID'') (rows F2) = map (\<lambda>r. r ''NewsID'') (rows F1)
           \<and> map (\<lambda>r. r ''ArticleKey'') (rows F2) = map (\<lambda>r. r ''ArticleKey'') (rows F1)"
proof -
  from uA have hA: "has_keys A" by (simp add: unique_keys_def)
  from m1 obtain B' where lB: "load_existing H B = Inr B'"
    by (auto simp: merge_def merge_batch_def split: sum.splits)
  from m1 lB obtain n F where mn: "merge_new A B' = Inr (n, F)"
    by (auto simp: merge_def merge_batch_def load_existing_keyed[OF hA] split: sum.splits)
  then have cB: "''NewsID'' \<in> set (columns B')"
    by (auto simp: merge_new_def getitem_def split: if_splits)
  show ?thesis
  proof (cases "rows B' = []")
    case True
    then have k: "\<forall>r \<in> set (rows B'). r ''NewsID'' \<in> set (map (\<lambda>r. r ''NewsID'') (rows A))" by simp
    from merge_known[OF uA lB cB k] m1 have "F1 = A" by simp
    with merge_known[OF uA lB cB k] show ?thesis by simp
  next
    case False
    with cB have "\<not> empty_df B'" by (auto simp: empty_df_def)
    from load_existing_result[OF lB this] have hB: "has_keys B'" .
    note e = merge_via_loaded[OF lB hB]
    let ?ID = "\<lambda>r::row. r ''NewsID''" and ?AK = "\<lambda>r::row. r ''ArticleKey''"
    let ?Y = "keep_first (map ?AK (rows A)) ?AK
                (keep_first (map ?ID (rows A)) ?ID (filter (\<lambda>r. ?ID r \<notin> set (map ?ID (rows A))) (rows B')))"
    from merge_keyed[OF uA hB, of H] m1 have
      u1: "unique_keys F1" and i1: "map ?ID (rows F1) = map ?ID (rows A) @ map ?ID ?Y"
      and k1: "map ?AK (rows F1) = map ?AK (rows A) @ map ?AK ?Y"
      unfolding e by auto
    have z: "keep_first (map ?AK (rows F1)) ?AK
               (keep_first (map ?ID (rows F1)) ?ID (filter (\<lambda>r. ?ID r \<notin> set (map ?ID (rows F1))) (rows B'))) = []"
      by (rule second_merge_adds_nothing[OF i1 k1 refl])
    from merge_keyed[OF u1 hB, of H] obtain F2 where
      m2: "merge H (Some F1) B' = Inr F2"
      and i2: "map ?ID (rows F2) = map ?ID (rows F1)" and k2: "map ?AK (rows F2) = map ?AK (rows F1)"
      unfolding z by auto
    from i2 have "length (rows F2) = length (rows F1)" by (rule map_eq_imp_length_eq)
    with m2 i2 k2 show ?thesis unfolding e by blast
  qed
qed


lemma strip_Chip2: "strip ''Chip news 2'' = ''Chip news 2''" by code_simp
lemma lower_Chip2: "lower ''Chip news 2'' = ''chip news 2''" by code_simp

lemma demo_ba: "hexdigest (demo_digest ''NVDA|b|t1'') \<noteq> hexdigest (demo_digest ''NVDA|a|t1'')"
  using demo_ab by simp

lemma demo_keys: "hexdigest (demo_digest ''NVDA|chip news|t1'') \<noteq> hexdigest (demo_digest ''NVDA|chip news 2|t1'')"
  by (rule hexdigest_neqI) (simp add: demo_digest_def)

lemma ex_load_archive:
  "load_existing demo_digest ex_legacy_archive =
     Inr \<lparr>columns = ex_columns @ [''ArticleKey''],
          rows = [ex_row_a(''ArticleKey'' := Str (hexdigest (demo_digest ''NVDA|chip news|t1''))),
                  ex_row_b(''ArticleKey'' := Str (hexdigest (demo_digest ''NVDA|chip news|t1'')))]\<rparr>"
  by (simp add: load_existing_def ensure_news_id_def ensure_article_key_def empty_df_def
        ex_legacy_archive_def ex_columns_def ex_row_a_def ex_row_b_def
        row_article_key_def series_of_def series_get_def make_article_key_def setitem_def
        upper_NVDA strip_NVDA strip_Chip lower_Chip strip_t1)

lemma ex_load_batch:
  "load_existing demo_digest ex_batch =
     Inr \<lparr>columns = ex_columns @ [''ArticleKey''],
          rows = [ex_row_new(''ArticleKey'' := Str (hexdigest (demo_digest ''NVDA|chip news 2|t1'')))]\<rparr>"
  by (simp add: load_existing_def ensure_news_id_def ensure_article_key_def empty_df_def
        ex_batch_def ex_columns_def ex_row_new_def
        row_article_key_def series_of_def series_get_def make_article_key_def setitem_def
        upper_NVDA strip_NVDA strip_Chip2 lower_Chip2 strip_t1)

lemma ex_first_merge: "merge demo_digest (Some ex_legacy_archive) ex_batch = Inr ex_after_first"
proof -
  let ?K = "Str (hexdigest (demo_digest ''NVDA|chip news|t1''))"
  let ?L = "\<lparr>columns = ex_columns @ [''ArticleKey''],
          rows = [ex_row_a(''ArticleKey'' := ?K), ex_row_b(''ArticleKey'' := ?K)]\<rparr>"
  let ?B = "\<lparr>columns = ex_columns @ [''ArticleKey''],
          rows = [ex_row_new(''ArticleKey'' := Str (hexdigest (demo_digest ''NVDA|chip news 2|t1'')))]\<rparr>"
  have hL: "has_keys ?L"
    by (simp add: has_keys_def ex_columns_def ex_row_a_def ex_row_b_def)
  have mn: "merge_new ?L ?B = Inr (FoundExisting 2 1 0, ?L)"
    by (simp add: merge_new_def getitem_def Let_def ex_columns_def ex_row_a_def ex_row_b_def ex_row_new_def)
  have dp: "dedup_pass demo_digest ?L = Inr ex_after_first"
    unfolding dedup_pass_keyed[OF hL] using demo_ba
    by (simp add: empty_df_def ex_after_first_def ex_columns_def ex_row_a_def ex_row_b_def)
  show ?thesis
    by (simp add: merge_def merge_batch_def ex_load_archive ex_load_batch mn dp)
qed

lemma ex_unique_first: "unique_keys ex_after_first"
  by (simp add: unique_keys_def has_keys_def ex_after_first_def ex_columns_def ex_row_a_def)

lemma ex_second_merge: "merge demo_digest (Some ex_after_first) ex_batch = Inr ex_after_second"
proof -
  let ?B = "\<lparr>columns = ex_columns @ [''ArticleKey''],
          rows = [ex_row_new(''ArticleKey'' := Str (hexdigest (demo_digest ''NVDA|chip news 2|t1'')))]\<rparr>"
  let ?C = "concat_frames [ex_after_first, ?B]"
  from ex_unique_first have hF: "has_keys ex_after_first" by (simp add: unique_keys_def)
  have mn: "merge_new ex_after_first ?B = Inr (FoundExisting 1 1 1, ?C)"
    using demo_ba
    by (simp add: merge_new_def getitem_def Let_def ex_after_first_def ex_columns_def
          ex_row_a_def ex_row_new_def)
  have hC: "has_keys ?C"
    by (simp add: has_keys_def concat_frames_def reindex_def ex_after_first_def ex_columns_def
          ex_row_a_def ex_row_new_def)
  have dp: "dedup_pass demo_digest ?C = Inr ex_after_second"
    unfolding dedup_pass_keyed[OF hC] using demo_ba demo_keys
    by (simp add: empty_df_def concat_frames_def ex_after_first_def ex_after_second_def
          ex_columns_def reindex_in ex_row_a_def ex_row_new_def)
  show ?thesis
    by (simp add: merge_def merge_batch_def load_existing_keyed[OF hF] ex_load_batch mn dp)
qed

text \<open>
  Claim C6 as stated fails for an archive whose identities are not unique. The archive
  of the older format holds the same article under the URLs \<open>a\<close> and \<open>b\<close>; the batch
  holds the article of URL \<open>b\<close> with a changed title. The first merge drops the batch
  row (its NewsID is known) and then the archive row of URL \<open>b\<close> (its ArticleKey is
  that of the row of URL \<open>a\<close>): one row. The second merge no longer knows the NewsID
  of the batch row and appends it: two rows.
\<close>

theorem merge_twice_grows_legacy_archive:
  "merge demo_digest (Some ex_legacy_archive) ex_batch = Inr ex_after_first
   \<and> merge demo_digest (Some ex_after_first) ex_batch = Inr ex_after_second
   \<and> length (rows ex_after_first) = 1
   \<and> length (rows ex_after_second) = 2"
  by (simp add: ex_first_merge ex_second_merge) (simp add: ex_after_first_def ex_after_second_def)

theorem merge_twice_same_size_witness:
  "unique_keys ex_after_first
   \<and> merge demo_digest (Some ex_after_first) ex_batch = Inr ex_after_second
   \<and> (\<exists>F2. merge demo_digest (Some ex_after_second) ex_batch = Inr F2 \<and> length (rows F2) = 2)"
proof -
  from merge_twice_same_size[OF ex_unique_first ex_second_merge]
  obtain F2 where m: "merge demo_digest (Some ex_after_second) ex_batch = Inr F2"
    and l: "length (rows F2) = length (rows ex_after_second)" by blast
  have "length (rows ex_after_second) = 2" by (simp add: ex_after_second_def)
  with m l have "\<exists>F2. merge demo_digest (Some ex_after_second) ex_batch = Inr F2 \<and> length (rows F2) = 2"
    by auto
  with ex_unique_first ex_second_merge show ?thesis by (intro conjI)
qed

end
